theory Spec2Isabelle
  imports Complex_Main
begin

section \<open>Mask reconstruction of cellpose/models.py\<close>

text \<open>
  The development embeds \<^verbatim>\<open>CellposeModel._run_cp\<close> and
  \<^verbatim>\<open>CellposeModel._compute_masks\<close> of \<^verbatim>\<open>src/cellpose/models.py\<close>.
  Arrays of floats are lists of the reals their entries denote, a 2D array is the list
  of its rows, labels are integers. The rounding of floats is modelled where a threshold
  or the iteration budget depends on it. Python exceptions are values of \<open>py_error\<close>.
\<close>

subsection \<open>Arrays and errors\<close>

datatype py_error = ZeroDivisionError | IndexError | NameError | ValueError | TypeError

type_synonym 'a grid = "'a list list"

text \<open>An array as NumPy has it, by number of dimensions: \<^verbatim>\<open>np.zeros(())\<close> is \<open>Arr0 0\<close>.\<close>

datatype 'a ndarray = Arr0 'a | Arr2 "'a grid" | Arr3 "'a grid list"

definition tabulate :: "nat \<Rightarrow> nat \<Rightarrow> (nat \<Rightarrow> nat \<Rightarrow> 'a) \<Rightarrow> 'a grid" where
  "tabulate Ly Lx f = map (\<lambda>y. map (\<lambda>x. f y x) [0..<Lx]) [0..<Ly]"

definition nrows :: "'a grid \<Rightarrow> nat" where
  "nrows g = length g"

definition ncols :: "'a grid \<Rightarrow> nat" where
  "ncols g = (case g of [] \<Rightarrow> 0 | r # _ \<Rightarrow> length r)"

definition rect :: "'a grid \<Rightarrow> bool" where
  "rect g = list_all (\<lambda>r. length r = ncols g) g"

text \<open>The value at row \<open>y\<close>, column \<open>x\<close>, with \<open>bv\<close> standing for every place
  outside the array (the \<^verbatim>\<open>border_value\<close> of scipy.ndimage).\<close>

definition px :: "bool grid \<Rightarrow> bool \<Rightarrow> int \<Rightarrow> int \<Rightarrow> bool" where
  "px g bv y x =
     (if 0 \<le> y \<and> y < int (nrows g) \<and> 0 \<le> x \<and> x < int (ncols g)
      then g ! nat y ! nat x else bv)"

subsection \<open>Floating-point numbers\<close>

text \<open>\<^verbatim>\<open>np.rint\<close>: to the nearest integer, a half to the even neighbour.\<close>

definition np_rint :: "real \<Rightarrow> int" where
  "np_rint v =
     (let f = \<lfloor>v\<rfloor>; r = v - of_int f
      in if r < 1 / 2 then f else if 1 / 2 < r then f + 1 else if even f then f else f + 1)"

text \<open>
  A Python float and a NumPy float64 are IEEE 754 binary64 numbers, the outputs of the
  network are float32 arrays (lines 596-600). A finite float is held as the real it
  denotes. \<open>round_float p emax\<close> is the rounding of a real to the nearest float with
  \<open>p\<close> bits of precision and greatest exponent \<open>emax\<close>, a tie going to the even
  neighbour and a result past the largest finite float to an infinity. \<open>expo\<close> is
  the exponent of the binade of \<open>x\<close>, the least one for the subnormal numbers; it is
  searched from the top.
\<close>

datatype xfloat = Fin real | PosInf | NegInf

definition pow2 :: "int \<Rightarrow> real" where
  "pow2 k = (if 0 \<le> k then 2 ^ nat k else 1 / 2 ^ nat (- k))"

fun search :: "nat \<Rightarrow> int \<Rightarrow> real \<Rightarrow> int" where
  "search 0 k x = k"
| "search (Suc n) k x = (if pow2 k \<le> x then k else search n (k - 1) x)"

definition expo :: "int \<Rightarrow> real \<Rightarrow> int" where
  "expo emax x = search (nat (2 * emax)) (emax + 1) \<bar>x\<bar>"

definition round_float :: "nat \<Rightarrow> int \<Rightarrow> real \<Rightarrow> xfloat" where
  "round_float p emax x =
     (let e = expo emax x;
          u = pow2 (e - int p + 1);
          r = real_of_int (np_rint (x / u)) * u
      in if pow2 (emax + 1) \<le> \<bar>r\<bar> then (if x < 0 then NegInf else PosInf) else Fin r)"

definition float64 :: "real \<Rightarrow> xfloat" where
  "float64 = round_float 53 1023"

definition float32 :: "real \<Rightarrow> xfloat" where
  "float32 = round_float 24 127"

definition to_float32 :: "xfloat \<Rightarrow> xfloat" where
  "to_float32 a = (case a of Fin r \<Rightarrow> float32 r | PosInf \<Rightarrow> PosInf | NegInf \<Rightarrow> NegInf)"

text \<open>\<open>a \<le> b\<close> on floats, and \<^verbatim>\<open>np.clip(a, a_min=None, a_max=b)\<close>, their minimum.\<close>

definition xle :: "xfloat \<Rightarrow> xfloat \<Rightarrow> bool" where
  "xle a b = (case a of NegInf \<Rightarrow> True
              | PosInf \<Rightarrow> b = PosInf
              | Fin x \<Rightarrow> (case b of NegInf \<Rightarrow> False | PosInf \<Rightarrow> True | Fin y \<Rightarrow> x \<le> y))"

definition xmin :: "xfloat \<Rightarrow> xfloat \<Rightarrow> xfloat" where
  "xmin a b = (if xle a b then a else b)"

text \<open>
  \<^verbatim>\<open>array > scalar\<close> for a float32 array, entry by entry: \<open>fgt v t\<close> is \<open>v > t\<close> for a
  finite \<open>v\<close>. NumPy first brings the scalar to the type the comparison is made in.
  Before version 2 NumPy casts by value: a float scalar, of Python or of NumPy, is
  rounded to float32 when its value lies strictly between \<open>-3.4e38\<close> and \<open>3.4e38\<close>
  (the test of \<^verbatim>\<open>min_scalar_type\<close>), an infinity also, and otherwise the array is
  promoted to float64 and the scalar compared as it is (\<open>value_cast\<close>). Since version 2
  a Python float takes the type of the array, float32, and overflows to an infinity,
  while a NumPy float64 scalar promotes the array and is compared as it is.
\<close>

definition fgt :: "real \<Rightarrow> xfloat \<Rightarrow> bool" where
  "fgt v t = (case t of Fin r \<Rightarrow> r < v | PosInf \<Rightarrow> False | NegInf \<Rightarrow> True)"

definition value_cast :: "xfloat \<Rightarrow> xfloat" where
  "value_cast t =
     (case t of
        Fin r \<Rightarrow> if - (34 * 10 ^ 37) < r \<and> r < 34 * 10 ^ 37 then float32 r else Fin r
      | PosInf \<Rightarrow> PosInf
      | NegInf \<Rightarrow> NegInf)"

definition weak_scalar :: "bool \<Rightarrow> xfloat \<Rightarrow> xfloat" where
  "weak_scalar value_based t = (if value_based then value_cast t else to_float32 t)"

definition float64_scalar :: "bool \<Rightarrow> xfloat \<Rightarrow> xfloat" where
  "float64_scalar value_based t = (if value_based then value_cast t else t)"

subsection \<open>The iteration budget of \<^verbatim>\<open>_run_cp\<close>\<close>




subsection \<open>Seed selection\<close>

text \<open>
  \<^verbatim>\<open>skimage.filters.apply_hysteresis_threshold(image, low, high)\<close>:
  \<^verbatim>\<open>low = np.clip(low, a_min=None, a_max=high)\<close>, a NumPy float64;
  \<^verbatim>\<open>mask_low = image > low\<close>; \<^verbatim>\<open>mask_high = image > high\<close>, with the Python float
  \<open>high\<close>; the result is the pixels of \<open>mask_low\<close> whose connected component
  (\<^verbatim>\<open>scipy.ndimage.label\<close> with its default structuring element, the 4-neighbourhood
  in 2D and the 6-neighbourhood in 3D) holds a pixel of \<open>mask_high\<close>. The component
  search is a flood from the pixels of \<open>mask_high\<close>, run once per pixel of the
  image. \<open>value_based\<close> tells whether NumPy casts scalars by value (before version 2).
\<close>

definition spread :: "bool grid \<Rightarrow> bool grid \<Rightarrow> bool grid" where
  "spread mask_low cur =
     tabulate (nrows mask_low) (ncols mask_low) (\<lambda>y x.
       px mask_low False (int y) (int x) \<and>
       (px cur False (int y) (int x) \<or>
        px cur False (int y - 1) (int x) \<or> px cur False (int y + 1) (int x) \<or>
        px cur False (int y) (int x - 1) \<or> px cur False (int y) (int x + 1)))"

definition connected_to_high :: "bool grid \<Rightarrow> bool grid \<Rightarrow> bool grid" where
  "connected_to_high mask_low mask_high =
     (spread mask_low ^^ (nrows mask_low * ncols mask_low))
       (tabulate (nrows mask_low) (ncols mask_low) (\<lambda>y x.
          px mask_low False (int y) (int x) \<and> px mask_high False (int y) (int x)))"

definition apply_hysteresis_threshold :: "bool \<Rightarrow> real grid \<Rightarrow> xfloat \<Rightarrow> xfloat \<Rightarrow> bool grid" where
  "apply_hysteresis_threshold value_based img low high =
     (let low' = xmin low high;
          mask_low = map (map (\<lambda>v. fgt v (float64_scalar value_based low'))) img;
          mask_high = map (map (\<lambda>v. fgt v (weak_scalar value_based high))) img
      in connected_to_high mask_low mask_high)"

text \<open>
  Lines 668-671 of \<^verbatim>\<open>_compute_masks\<close>. \<open>distf\<close> is the source's \<^verbatim>\<open>dist\<close>, a float32
  array, and \<open>dist_threshold\<close> a Python float, so that \<^verbatim>\<open>dist_threshold-1\<close> is rounded to
  binary64.
\<close>

definition seed_mask :: "bool \<Rightarrow> bool \<Rightarrow> real grid \<Rightarrow> real \<Rightarrow> bool grid" where
  "seed_mask value_based skel distf dist_threshold =
     (if skel
      then apply_hysteresis_threshold value_based distf (float64 (dist_threshold - 1))
             (Fin dist_threshold)
      else map (map (\<lambda>v. fgt v (weak_scalar value_based (Fin dist_threshold)))) distf)"

text \<open>\<^verbatim>\<open>np.any(mask)\<close>.\<close>

definition np_any :: "bool grid \<Rightarrow> bool" where
  "np_any msk = list_ex (list_ex (\<lambda>b. b)) msk"

text \<open>
  The same lines on the field of a volume, which \<^verbatim>\<open>_run_cp\<close> passes when \<open>do_3D\<close> is
  set (line 630): a 3D array is the list of its planes, and the components are those
  of the 6-neighbourhood.
\<close>

type_synonym 'a volume = "'a grid list"

definition tabulate3 :: "nat \<Rightarrow> nat \<Rightarrow> nat \<Rightarrow> (nat \<Rightarrow> nat \<Rightarrow> nat \<Rightarrow> 'a) \<Rightarrow> 'a volume" where
  "tabulate3 Lz Ly Lx f = map (\<lambda>z. tabulate Ly Lx (f z)) [0..<Lz]"

definition nplanes :: "'a volume \<Rightarrow> nat" where
  "nplanes v = length v"

definition vrows :: "'a volume \<Rightarrow> nat" where
  "vrows v = (case v of [] \<Rightarrow> 0 | g # _ \<Rightarrow> nrows g)"

definition vcols :: "'a volume \<Rightarrow> nat" where
  "vcols v = (case v of [] \<Rightarrow> 0 | g # _ \<Rightarrow> ncols g)"

definition box :: "'a volume \<Rightarrow> bool" where
  "box v = list_all (\<lambda>g. rect g \<and> nrows g = vrows v \<and> ncols g = vcols v) v"

definition vx :: "bool volume \<Rightarrow> int \<Rightarrow> int \<Rightarrow> int \<Rightarrow> bool" where
  "vx v z y x =
     (if 0 \<le> z \<and> z < int (nplanes v) \<and> 0 \<le> y \<and> y < int (vrows v) \<and> 0 \<le> x \<and> x < int (vcols v)
      then v ! nat z ! nat y ! nat x else False)"

definition spread3 :: "bool volume \<Rightarrow> bool volume \<Rightarrow> bool volume" where
  "spread3 mask_low cur =
     tabulate3 (nplanes mask_low) (vrows mask_low) (vcols mask_low) (\<lambda>z y x.
       vx mask_low (int z) (int y) (int x) \<and>
       (vx cur (int z) (int y) (int x) \<or>
        vx cur (int z - 1) (int y) (int x) \<or> vx cur (int z + 1) (int y) (int x) \<or>
        vx cur (int z) (int y - 1) (int x) \<or> vx cur (int z) (int y + 1) (int x) \<or>
        vx cur (int z) (int y) (int x - 1) \<or> vx cur (int z) (int y) (int x + 1)))"

definition connected_to_high3 :: "bool volume \<Rightarrow> bool volume \<Rightarrow> bool volume" where
  "connected_to_high3 mask_low mask_high =
     (spread3 mask_low ^^ (nplanes mask_low * vrows mask_low * vcols mask_low))
       (tabulate3 (nplanes mask_low) (vrows mask_low) (vcols mask_low) (\<lambda>z y x.
          vx mask_low (int z) (int y) (int x) \<and> vx mask_high (int z) (int y) (int x)))"

definition apply_hysteresis_threshold3 :: "bool \<Rightarrow> real volume \<Rightarrow> xfloat \<Rightarrow> xfloat \<Rightarrow> bool volume" where
  "apply_hysteresis_threshold3 value_based img low high =
     (let low' = xmin low high;
          mask_low = map (map (map (\<lambda>v. fgt v (float64_scalar value_based low')))) img;
          mask_high = map (map (map (\<lambda>v. fgt v (weak_scalar value_based high)))) img
      in connected_to_high3 mask_low mask_high)"

definition seed_mask3 :: "bool \<Rightarrow> bool \<Rightarrow> real volume \<Rightarrow> real \<Rightarrow> bool volume" where
  "seed_mask3 value_based skel distf dist_threshold =
     (if skel
      then apply_hysteresis_threshold3 value_based distf (float64 (dist_threshold - 1))
             (Fin dist_threshold)
      else map (map (map (\<lambda>v. fgt v (weak_scalar value_based (Fin dist_threshold))))) distf)"

text \<open>
  The claim's own words for the skeleton regime, to compare \<open>seed_mask\<close> with: pixels
  above \<open>high\<close> seed a region; pixels above \<open>low\<close> connected (4-neighbourhood, and
  6-neighbourhood in a volume) to a seed are included.
\<close>

definition above :: "real grid \<Rightarrow> xfloat \<Rightarrow> int \<Rightarrow> int \<Rightarrow> bool" where
  "above img t y x =
     (0 \<le> y \<and> y < int (nrows img) \<and> 0 \<le> x \<and> x < int (ncols img) \<and> fgt (img ! nat y ! nat x) t)"

inductive hysteresis_spec :: "real grid \<Rightarrow> xfloat \<Rightarrow> xfloat \<Rightarrow> int \<Rightarrow> int \<Rightarrow> bool"
  for img low high where
  seed: "above img high y x \<Longrightarrow> hysteresis_spec img low high y x"
| grow: "hysteresis_spec img low high y' x' \<Longrightarrow> \<bar>y - y'\<bar> + \<bar>x - x'\<bar> = 1 \<Longrightarrow>
         above img low y x \<Longrightarrow> hysteresis_spec img low high y x"

definition above3 :: "real volume \<Rightarrow> xfloat \<Rightarrow> int \<Rightarrow> int \<Rightarrow> int \<Rightarrow> bool" where
  "above3 img t z y x =
     (0 \<le> z \<and> z < int (nplanes img) \<and> 0 \<le> y \<and> y < int (vrows img) \<and> 0 \<le> x \<and> x < int (vcols img) \<and>
      fgt (img ! nat z ! nat y ! nat x) t)"

inductive hysteresis_spec3 :: "real volume \<Rightarrow> xfloat \<Rightarrow> xfloat \<Rightarrow> int \<Rightarrow> int \<Rightarrow> int \<Rightarrow> bool"
  for img low high where
  seed3: "above3 img high z y x \<Longrightarrow> hysteresis_spec3 img low high z y x"
| grow3: "hysteresis_spec3 img low high z' y' x' \<Longrightarrow> \<bar>z - z'\<bar> + \<bar>y - y'\<bar> + \<bar>x - x'\<bar> = 1 \<Longrightarrow>
         above3 img low z y x \<Longrightarrow> hysteresis_spec3 img low high z y x"

text \<open>An array all of whose entries are float32 numbers.\<close>

definition float32_array :: "real grid \<Rightarrow> bool" where
  "float32_array a = list_all (list_all (\<lambda>v. float32 v = Fin v)) a"

definition float32_volume :: "real volume \<Rightarrow> bool" where
  "float32_volume a = list_all float32_array a"

text \<open>The pixels set in a boolean array, and one round of the flood on such sets.\<close>

definition gset :: "bool grid \<Rightarrow> (int \<times> int) set" where
  "gset g = {(y, x). px g False y x}"

definition flood :: "(int \<times> int) set \<Rightarrow> (int \<times> int) set \<Rightarrow> (int \<times> int) set" where
  "flood Lw S = {(y, x). (y, x) \<in> Lw \<and>
      ((y, x) \<in> S \<or> (y - 1, x) \<in> S \<or> (y + 1, x) \<in> S \<or> (y, x - 1) \<in> S \<or> (y, x + 1) \<in> S)}"

definition vset :: "bool volume \<Rightarrow> (int \<times> int \<times> int) set" where
  "vset v = {(z, y, x). vx v z y x}"

definition flood3 :: "(int \<times> int \<times> int) set \<Rightarrow> (int \<times> int \<times> int) set \<Rightarrow> (int \<times> int \<times> int) set" where
  "flood3 Lw S = {(z, y, x). (z, y, x) \<in> Lw \<and>
      ((z, y, x) \<in> S \<or> (z - 1, y, x) \<in> S \<or> (z + 1, y, x) \<in> S \<or> (z, y - 1, x) \<in> S \<or>
       (z, y + 1, x) \<in> S \<or> (z, y, x - 1) \<in> S \<or> (z, y, x + 1) \<in> S)}"

subsection \<open>NumPy indexing\<close>

text \<open>\<^verbatim>\<open>np.nonzero(mask)\<close> of a 2D array: the coordinates of the true entries, row by row.\<close>

definition np_nonzero :: "bool grid \<Rightarrow> (nat \<times> nat) list" where
  "np_nonzero msk =
     concat (map (\<lambda>y. map (\<lambda>x. (y, x)) (filter (\<lambda>x. msk ! y ! x) [0..<length (msk ! y)]))
       [0..<length msk])"

text \<open>An index into an axis of length \<open>n\<close>: a negative index counts from the end, and
  an index outside \<open>-n..n-1\<close> raises.\<close>

definition np_index :: "nat \<Rightarrow> int \<Rightarrow> py_error + nat" where
  "np_index n i =
     (let j = (if i < 0 then int n + i else i)
      in if 0 \<le> j \<and> j < int n then Inr (nat j) else Inl IndexError)"

definition np_get :: "'a list \<Rightarrow> int \<Rightarrow> py_error + 'a" where
  "np_get a i = (case np_index (length a) i of Inl e \<Rightarrow> Inl e | Inr j \<Rightarrow> Inr (a ! j))"

text \<open>\<^verbatim>\<open>a[y, x]\<close> and \<^verbatim>\<open>a[y, x] = v\<close> on a 2D array.\<close>

definition np_get2 :: "'a grid \<Rightarrow> int \<times> int \<Rightarrow> py_error + 'a" where
  "np_get2 a p =
     (case p of (y, x) \<Rightarrow>
       (case np_index (nrows a) y of Inl e \<Rightarrow> Inl e
        | Inr j \<Rightarrow> (case np_index (ncols a) x of Inl e \<Rightarrow> Inl e | Inr k \<Rightarrow> Inr (a ! j ! k))))"

definition np_set2 :: "'a grid \<Rightarrow> int \<times> int \<Rightarrow> 'a \<Rightarrow> py_error + 'a grid" where
  "np_set2 a p v =
     (case p of (y, x) \<Rightarrow>
       (case np_index (nrows a) y of Inl e \<Rightarrow> Inl e
        | Inr j \<Rightarrow> (case np_index (ncols a) x of Inl e \<Rightarrow> Inl e
            | Inr k \<Rightarrow> Inr (a[j := (a ! j)[k := v]]))))"

text \<open>\<^verbatim>\<open>a[ys, xs] = vs\<close> with index arrays: the writes happen in order, so the last one
  to a place wins; index and value arrays of different lengths do not broadcast.\<close>

fun np_scatter :: "'a grid \<Rightarrow> (int \<times> int) list \<Rightarrow> 'a list \<Rightarrow> py_error + 'a grid" where
  "np_scatter a [] [] = Inr a"
| "np_scatter a (p # ps) (v # vs) =
     (case np_set2 a p v of Inl e \<Rightarrow> Inl e | Inr a' \<Rightarrow> np_scatter a' ps vs)"
| "np_scatter a _ _ = Inl ValueError"

fun np_gather :: "'a grid \<Rightarrow> (int \<times> int) list \<Rightarrow> py_error + 'a list" where
  "np_gather a [] = Inr []"
| "np_gather a (p # ps) =
     (case np_get2 a p of Inl e \<Rightarrow> Inl e
      | Inr v \<Rightarrow> (case np_gather a ps of Inl e \<Rightarrow> Inl e | Inr vs \<Rightarrow> Inr (v # vs)))"

text \<open>\<^verbatim>\<open>dst[m] = src[m]\<close> with a boolean array \<open>m\<close> of the shape of \<open>dst\<close> and \<open>src\<close>.\<close>

definition assign_where :: "bool grid \<Rightarrow> 'a grid \<Rightarrow> 'a grid \<Rightarrow> 'a grid" where
  "assign_where m src dst =
     map (\<lambda>(mr, sr, dr). map (\<lambda>(b, s, d). if b then s else d) (zip mr (zip sr dr)))
       (zip m (zip src dst))"

subsection \<open>The divergence of the skeleton regime (lines 718-728)\<close>

definition pad :: nat where
  "pad = 1"

text \<open>\<^verbatim>\<open>T = np.zeros((Ly+2*pad)*(Lx+2*pad)); T[Y*Lx+X] = np.reshape(c, Ly*Lx)[Y*Lx+X]\<close>
  for one component \<open>c\<close> of the field.\<close>

definition fill_buffer :: "nat \<Rightarrow> nat \<Rightarrow> (nat \<times> nat) list \<Rightarrow> real grid \<Rightarrow> real list" where
  "fill_buffer Ly Lx YX component =
     foldl (\<lambda>buf (Y, X). buf[Y * Lx + X := concat component ! (Y * Lx + X)])
       (replicate ((Ly + 2 * pad) * (Lx + 2 * pad)) 0) YX"

text \<open>The flat indices line 727-728 reads for the pixel \<open>(Y, X)\<close>: four into \<open>Ty\<close>, then
  four into \<open>Tx\<close>, in the order of the source.\<close>

definition stencil_taps :: "nat \<Rightarrow> nat \<times> nat \<Rightarrow> int list" where
  "stencil_taps Lx p =
     (case p of (Y, X) \<Rightarrow>
       [(int Y + 2) * int Lx + int X, (int Y + 1) * int Lx + int X,
        (int Y - 1) * int Lx + int X, (int Y - 2) * int Lx + int X,
        int Y * int Lx + int X + 2, int Y * int Lx + int X + 1,
        int Y * int Lx + int X - 1, int Y * int Lx + int X - 2])"

fun weighted_sum :: "(real \<times> real list \<times> int) list \<Rightarrow> py_error + real" where
  "weighted_sum [] = Inr 0"
| "weighted_sum ((c, buf, i) # ts) =
     (case np_get buf i of Inl e \<Rightarrow> Inl e
      | Inr v \<Rightarrow> (case weighted_sum ts of Inl e \<Rightarrow> Inl e | Inr s \<Rightarrow> Inr (c * v + s)))"

definition div_at :: "nat \<Rightarrow> real list \<Rightarrow> real list \<Rightarrow> nat \<times> nat \<Rightarrow> py_error + real" where
  "div_at Lx Ty Tx p =
     weighted_sum (zip [1, 8, - 8, - 1, 1, 8, - 8, - 1]
       (zip [Ty, Ty, Ty, Ty, Tx, Tx, Tx, Tx] (stencil_taps Lx p)))"

fun scatter_div :: "nat \<Rightarrow> real list \<Rightarrow> real list \<Rightarrow> (nat \<times> nat) list \<Rightarrow> real list
    \<Rightarrow> py_error + real list" where
  "scatter_div Lx Ty Tx [] dv = Inr dv"
| "scatter_div Lx Ty Tx ((Y, X) # ps) dv =
     (case div_at Lx Ty Tx (Y, X) of Inl e \<Rightarrow> Inl e
      | Inr v \<Rightarrow> scatter_div Lx Ty Tx ps (dv[Y * Lx + X := v]))"

text \<open>\<open>div\<close> as line 727 leaves it, before \<^verbatim>\<open>normalize99\<close>; \<open>dP ! 0\<close> is the y component.\<close>

definition divergence :: "bool grid \<Rightarrow> real grid list \<Rightarrow> py_error + real list" where
  "divergence msk dP =
     (let Ly = nrows msk; Lx = ncols msk;
          YX = np_nonzero msk;
          Tx = fill_buffer Ly Lx YX (dP ! 1);
          Ty = fill_buffer Ly Lx YX (dP ! 0)
      in scatter_div Lx Ty Tx YX (replicate (Ly * Lx) 0))"

subsection \<open>Border correction of the skeleton (lines 750-767)\<close>

text \<open>
  \<^verbatim>\<open>scipy.ndimage.binary_dilation\<close>, \<^verbatim>\<open>binary_erosion\<close> and \<^verbatim>\<open>binary_opening\<close> with the
  default structuring element (the 4-neighbourhood cross), a positive number of
  iterations and a \<^verbatim>\<open>border_value\<close> for the places outside the array. An opening is
  the erosions followed by as many dilations.
\<close>

definition dilate :: "bool \<Rightarrow> bool grid \<Rightarrow> bool grid" where
  "dilate bv g =
     tabulate (nrows g) (ncols g) (\<lambda>y x.
       px g bv (int y) (int x) \<or>
       px g bv (int y - 1) (int x) \<or> px g bv (int y + 1) (int x) \<or>
       px g bv (int y) (int x - 1) \<or> px g bv (int y) (int x + 1))"

definition erode :: "bool \<Rightarrow> bool grid \<Rightarrow> bool grid" where
  "erode bv g =
     tabulate (nrows g) (ncols g) (\<lambda>y x.
       px g bv (int y) (int x) \<and>
       px g bv (int y - 1) (int x) \<and> px g bv (int y + 1) (int x) \<and>
       px g bv (int y) (int x - 1) \<and> px g bv (int y) (int x + 1))"

definition binary_dilation :: "bool grid \<Rightarrow> bool \<Rightarrow> nat \<Rightarrow> bool grid" where
  "binary_dilation g border_value iterations = (dilate border_value ^^ iterations) g"

definition binary_erosion :: "bool grid \<Rightarrow> bool \<Rightarrow> nat \<Rightarrow> bool grid" where
  "binary_erosion g border_value iterations = (erode border_value ^^ iterations) g"

definition binary_opening :: "bool grid \<Rightarrow> bool \<Rightarrow> nat \<Rightarrow> bool grid" where
  "binary_opening g border_value iterations =
     binary_dilation (binary_erosion g border_value iterations) border_value iterations"

text \<open>
  Lines 755-767. \<open>nclasses\<close> is \<^verbatim>\<open>self.nclasses\<close>, \<open>bd\<close> the boundary output. A boolean
  index of another shape than the array raises.
\<close>

definition border_correct :: "nat \<Rightarrow> real grid \<Rightarrow> bool grid \<Rightarrow> py_error + bool grid" where
  "border_correct nclasses bd skelmask =
     (let border_mask0 = tabulate (nrows skelmask) (ncols skelmask) (\<lambda>y x. False);
          border_px0 = border_mask0;
          border_mask = binary_dilation border_mask0 True 5;
          border_px1 = assign_where border_mask skelmask border_px0
      in if nclasses = 4 then
           if nrows bd = nrows skelmask \<and> ncols bd = ncols skelmask then
             let border_px2 = assign_where (map (map (\<lambda>v. v > - 1)) bd)
                                (tabulate (nrows skelmask) (ncols skelmask) (\<lambda>y x. False)) border_px1
             in Inr (assign_where border_mask border_px2 skelmask)
           else Inl IndexError
         else
           let border_px2 = binary_opening border_px1 False 3
           in Inr (assign_where border_mask border_px2 skelmask))"


subsection \<open>The collaborators of \<^verbatim>\<open>_compute_masks\<close>\<close>

text \<open>
  A vector field \<^verbatim>\<open>dP\<close> of a 2D image is the list of its two components (y first).
  The functions of \<^verbatim>\<open>dynamics\<close>, \<^verbatim>\<open>transforms\<close> and \<^verbatim>\<open>utils\<close>, and those of scikit-learn,
  scikit-image and OpenCV, are parameters: \<^verbatim>\<open>_compute_masks\<close> is modelled for any
  behaviour of theirs. They read their arguments and return new arrays. The arguments
  \<^verbatim>\<open>use_gpu\<close> and \<^verbatim>\<open>device\<close> choose hardware and are left out. The last field tells
  which NumPy is installed: one that casts scalars by value (before version 2) or not.
\<close>

type_synonym vfield = "real grid list"

record 'tr externals =
  follow_flows :: "vfield \<Rightarrow> bool grid \<Rightarrow> real option \<Rightarrow> bool \<Rightarrow> bool \<Rightarrow> bool
                     \<Rightarrow> vfield \<times> (nat \<times> nat) list \<times> 'tr list"
  get_masks :: "vfield \<Rightarrow> bool grid \<Rightarrow> vfield \<Rightarrow> real option \<Rightarrow> int grid"
  dist_to_diam :: "real list \<Rightarrow> real"
  diameters :: "bool grid \<Rightarrow> bool \<Rightarrow> real \<times> real"
  normalize_field :: "vfield \<Rightarrow> vfield"
  normalize99 :: "real list \<Rightarrow> real list"
  DBSCAN :: "real \<Rightarrow> nat \<Rightarrow> (real \<times> real) list \<Rightarrow> int list"
  label_cc :: "bool grid \<Rightarrow> nat \<Rightarrow> int grid"
  resize_image :: "int grid \<Rightarrow> nat \<Rightarrow> nat \<Rightarrow> int grid"
  cv2_resize :: "real grid \<Rightarrow> nat \<times> nat \<Rightarrow> real grid"
  fill_holes_and_remove_small_masks :: "int ndarray \<Rightarrow> int \<Rightarrow> py_error + int ndarray"
  value_based_casting :: bool

text \<open>\<^verbatim>\<open>self.nclasses\<close>, and the module's \<^verbatim>\<open>SKLEARN_ENABLED\<close>: without scikit-learn the
  name \<^verbatim>\<open>DBSCAN\<close> is unbound.\<close>

record model =
  nclasses :: nat
  SKLEARN_ENABLED :: bool

text \<open>
  The state of a call: the vector-field arrays alive, by address (so that a write
  through one name is seen through every alias), the next free address, and the
  collaborators invoked so far.
\<close>

datatype call =
  FollowFlows | GetMasks | DistToDiam | Diameters | NormalizeField | Normalize99
  | Dbscan real nat | Label nat | ResizeImage | Cv2Resize | FillHoles | Renumber

record state =
  heap :: "nat \<Rightarrow> vfield option"
  nxt :: nat
  calls :: "call list"

definition logc :: "call \<Rightarrow> state \<Rightarrow> state" where
  "logc c st = st\<lparr>calls := calls st @ [c]\<rparr>"

definition deref :: "state \<Rightarrow> nat \<Rightarrow> vfield" where
  "deref st r = (case heap st r of Some v \<Rightarrow> v | None \<Rightarrow> [])"

definition alloc :: "vfield \<Rightarrow> state \<Rightarrow> nat \<times> state" where
  "alloc v st = (nxt st, st\<lparr>heap := (heap st)(nxt st \<mapsto> v), nxt := Suc (nxt st)\<rparr>)"

text \<open>\<^verbatim>\<open>dP * mask\<close> and \<^verbatim>\<open>dP * div\<close>: the grid is broadcast over the components.\<close>

definition mul_mask :: "vfield \<Rightarrow> bool grid \<Rightarrow> vfield" where
  "mul_mask v msk = map (\<lambda>c. map2 (map2 (\<lambda>a b. a * (if b then 1 else 0))) c msk) v"

definition mul_grid :: "vfield \<Rightarrow> real grid \<Rightarrow> vfield" where
  "mul_grid v g = map (\<lambda>c. map2 (map2 (\<lambda>a b. a * b)) c g) v"

text \<open>\<^verbatim>\<open>dP *= mask\<close> and \<^verbatim>\<open>dP *= div\<close> write into the array at the address.\<close>

definition imul_mask :: "nat \<Rightarrow> bool grid \<Rightarrow> state \<Rightarrow> state" where
  "imul_mask r msk st = st\<lparr>heap := (heap st)(r \<mapsto> mul_mask (deref st r) msk)\<rparr>"

definition imul_grid :: "nat \<Rightarrow> real grid \<Rightarrow> state \<Rightarrow> state" where
  "imul_grid r g st = st\<lparr>heap := (heap st)(r \<mapsto> mul_grid (deref st r) g)\<rparr>"

text \<open>\<^verbatim>\<open>dist[mask]\<close>: the values under the mask, row by row.\<close>

definition boolean_index :: "real grid \<Rightarrow> bool grid \<Rightarrow> real list" where
  "boolean_index a msk = map (\<lambda>(y, x). a ! y ! x) (np_nonzero msk)"

definition ints :: "(nat \<times> nat) list \<Rightarrow> (int \<times> int) list" where
  "ints ps = map (\<lambda>(y, x). (int y, int x)) ps"

text \<open>\<^verbatim>\<open>np.zeros(shape)\<close> for the label array: \<^verbatim>\<open>None\<close> is NumPy's alias for the empty
  shape, and gives a 0-dimensional array.\<close>

definition np_zeros :: "(nat \<times> nat) option \<Rightarrow> int ndarray" where
  "np_zeros shape =
     (case shape of None \<Rightarrow> Arr0 0 | Some (h, w) \<Rightarrow> Arr2 (tabulate h w (\<lambda>y x. 0)))"

subsection \<open>\<^verbatim>\<open>fastremap.renumber(mask, in_place=True)\<close>\<close>

text \<open>
  Modelled from the spec: \<^verbatim>\<open>fastremap\<close> is a library, its code is not in the repository.
  Section 4.6 (3) has it renumber the remaining labels to a dense contiguous sequence
  with no gaps, not necessarily in the original numeric order; the library documents
  numbering from 1 in the order of first appearance in the flattened array, with zero
  kept, and \<^verbatim>\<open>in_place=True\<close> overwrites the array.
\<close>

fun remap_dict :: "(int \<Rightarrow> int option) \<Rightarrow> int \<Rightarrow> int list \<Rightarrow> (int \<Rightarrow> int option)" where
  "remap_dict d n [] = d"
| "remap_dict d n (v # vs) =
     (if d v \<noteq> None then remap_dict d n vs else remap_dict (d(v \<mapsto> n)) (n + 1) vs)"

fun flatten :: "'a ndarray \<Rightarrow> 'a list" where
  "flatten (Arr0 v) = [v]"
| "flatten (Arr2 g) = concat g"
| "flatten (Arr3 gs) = concat (concat gs)"

definition renumber :: "int ndarray \<Rightarrow> int ndarray" where
  "renumber a =
     (let d = remap_dict [0 \<mapsto> 0] 1 (flatten a)
      in map_ndarray (\<lambda>v. case d v of Some k \<Rightarrow> k | None \<Rightarrow> v) a)"

subsection \<open>The skeleton regime (lines 690-770)\<close>

text \<open>Lines 691-698: the mean diameter and the DBSCAN radius.\<close>

definition skel_params :: "model \<Rightarrow> 'tr externals \<Rightarrow> real grid \<Rightarrow> bool grid \<Rightarrow> bool
    \<Rightarrow> real \<times> real \<times> call" where
  "skel_params self ext distf msk skel =
     (if nclasses self = 4
      then (dist_to_diam ext (map abs (boolean_index distf msk)), 1 + 1 / 3, DistToDiam)
      else (fst (diameters ext msk skel), sqrt 2, Diameters))"

text \<open>Lines 709-710.\<close>

definition force_cluster :: "real \<Rightarrow> real \<Rightarrow> bool \<Rightarrow> bool" where
  "force_cluster d diam_threshold cluster = (if d \<le> diam_threshold then True else cluster)"

text \<open>Line 730, \<^verbatim>\<open>div.shape = (Ly,Lx)\<close>: a flat array of another size cannot take the shape.\<close>

definition set_shape :: "nat \<Rightarrow> nat \<Rightarrow> real list \<Rightarrow> py_error + real grid" where
  "set_shape Ly Lx dv =
     (if length dv = Ly * Lx then Inr (tabulate Ly Lx (\<lambda>y x. dv ! (y * Lx + x)))
      else Inl ValueError)"

text \<open>Line 739, \<^verbatim>\<open>newinds = p[:,inds[:,0],inds[:,1]].swapaxes(0,1)\<close>: the landing point of
  each pixel of \<open>inds\<close>.\<close>

definition landing :: "vfield \<Rightarrow> (nat \<times> nat) list \<Rightarrow> py_error + (real \<times> real) list" where
  "landing p inds =
     (case np_gather (p ! 0) (ints inds) of Inl e \<Rightarrow> Inl e
      | Inr ys \<Rightarrow> (case np_gather (p ! 1) (ints inds) of Inl e \<Rightarrow> Inl e
          | Inr xs \<Rightarrow> Inr (zip ys xs)))"

text \<open>Lines 746-748: the values written to \<^verbatim>\<open>mask[inds[:,0],inds[:,1]]\<close> when clustering.\<close>

definition cluster_labels :: "model \<Rightarrow> 'tr externals \<Rightarrow> real \<Rightarrow> (real \<times> real) list
    \<Rightarrow> py_error + int list" where
  "cluster_labels self ext eps newinds =
     (if SKLEARN_ENABLED self then Inr (map (\<lambda>l. l + 1) (DBSCAN ext eps 3 newinds))
      else Inl NameError)"

text \<open>Lines 750-770: the values written to \<^verbatim>\<open>mask[inds[:,0],inds[:,1]]\<close> otherwise.\<close>

definition skeleton_labels :: "model \<Rightarrow> 'tr externals \<Rightarrow> real grid \<Rightarrow> real grid
    \<Rightarrow> (real \<times> real) list \<Rightarrow> py_error + int list" where
  "skeleton_labels self ext distf bd newinds =
     (let newinds' = map (\<lambda>(a, b). (np_rint a, np_rint b)) newinds;
          skelmask0 = tabulate (nrows distf) (ncols distf) (\<lambda>y x. False)
      in case np_scatter skelmask0 newinds' (replicate (length newinds') True) of
           Inl e \<Rightarrow> Inl e
         | Inr skelmask \<Rightarrow>
             (case border_correct (nclasses self) bd skelmask of
                Inl e \<Rightarrow> Inl e
              | Inr skelmask' \<Rightarrow> np_gather (label_cc ext skelmask' 1) newinds'))"

text \<open>Lines 739-770: from the landing positions to the label array.\<close>

definition skel_assign :: "model \<Rightarrow> 'tr externals \<Rightarrow> real grid \<Rightarrow> real grid \<Rightarrow> vfield
    \<Rightarrow> (nat \<times> nat) list \<Rightarrow> bool \<Rightarrow> real \<Rightarrow> state \<Rightarrow> (py_error + int grid) \<times> state" where
  "skel_assign self ext distf bd p inds cluster eps st =
     (case landing p inds of
        Inl e \<Rightarrow> (Inl e, st)
      | Inr newinds \<Rightarrow>
          (let mask0 = tabulate (nrows (p ! 0)) (ncols (p ! 0)) (\<lambda>y x. 0)
           in if cluster then
                (case cluster_labels self ext eps newinds of
                   Inl e \<Rightarrow> (Inl e, st)
                 | Inr vals \<Rightarrow> (np_scatter mask0 (ints inds) vals, logc (Dbscan eps 3) st))
              else
                (case skeleton_labels self ext distf bd newinds of
                   Inl e \<Rightarrow> (Inl e, st)
                 | Inr vals \<Rightarrow> (np_scatter mask0 (ints inds) vals, logc (Label 1) st))))"

text \<open>Lines 690-770. \<open>dP\<close> is the address of the caller's array.\<close>

definition skel_branch :: "model \<Rightarrow> 'tr externals \<Rightarrow> nat \<Rightarrow> real grid \<Rightarrow> real grid \<Rightarrow> bool grid
    \<Rightarrow> real \<Rightarrow> bool \<Rightarrow> bool \<Rightarrow> bool \<Rightarrow> bool \<Rightarrow> state
    \<Rightarrow> (py_error + int grid \<times> vfield \<times> 'tr list) \<times> state" where
  "skel_branch self ext dP distf bd msk diam_threshold interp cluster skel calc_trace st =
     (let Ly = nrows msk; Lx = ncols msk;
          (d, eps, c) = skel_params self ext distf msk skel;
          st1 = logc c st;
          (dP1, st2) = alloc (deref st1 dP) st1;
          cluster' = force_cluster d diam_threshold cluster;
          st3 = imul_mask dP1 msk st2;
          (dP2, st4) = alloc (normalize_field ext (deref st3 dP1)) (logc NormalizeField st3)
      in case divergence msk (deref st4 dP2) of
           Inl e \<Rightarrow> (Inl e, st4)
         | Inr dv \<Rightarrow>
             (case set_shape Ly Lx (normalize99 ext dv) of
                Inl e \<Rightarrow> (Inl e, logc Normalize99 st4)
              | Inr dvg \<Rightarrow>
                  (let st5 = imul_grid dP2 dvg (logc Normalize99 st4);
                       (p, inds, tr) = follow_flows ext (deref st5 dP2) msk None interp skel calc_trace;
                       st6 = logc FollowFlows st5
                   in case skel_assign self ext distf bd p inds cluster' eps st6 of
                        (Inl e, st7) \<Rightarrow> (Inl e, st7)
                      | (Inr lab, st7) \<Rightarrow> (Inr (lab, p, tr), st7))))"

subsection \<open>\<^verbatim>\<open>_compute_masks\<close> (lines 664-796)\<close>

text \<open>Lines 674-687, the original algorithm. \<open>p\<close> is the optional argument \<^verbatim>\<open>p\<close>.\<close>

definition orig_branch :: "'tr externals \<Rightarrow> nat \<Rightarrow> bool grid \<Rightarrow> vfield option \<Rightarrow> real \<Rightarrow> real
    \<Rightarrow> bool \<Rightarrow> bool \<Rightarrow> bool \<Rightarrow> bool \<Rightarrow> state
    \<Rightarrow> (py_error + int grid \<times> vfield \<times> 'tr list) \<times> state" where
  "orig_branch ext dP msk p niter flow_threshold interp do_3D skel calc_trace st =
     (let (p', tr, st1) =
            (case p of
               None \<Rightarrow>
                 (let (q, inds, tr) =
                        follow_flows ext (map (map (map (\<lambda>v. v / 5))) (mul_mask (deref st dP) msk))
                          msk (Some niter) interp skel calc_trace
                  in (q, tr, logc FollowFlows st))
             | Some q \<Rightarrow> (q, [], st));
          lab = get_masks ext p' msk (deref st1 dP) (if \<not> do_3D then Some flow_threshold else None)
      in (Inr (lab, p', tr), logc GetMasks st1))"

text \<open>Lines 776-784.\<close>

definition resize_step :: "'tr externals \<Rightarrow> (nat \<times> nat) option \<Rightarrow> int grid \<Rightarrow> vfield \<Rightarrow> state
    \<Rightarrow> (int grid \<times> vfield) \<times> state" where
  "resize_step ext resize lab p st =
     (case resize of
        None \<Rightarrow> ((lab, p), st)
      | Some (h, w) \<Rightarrow>
          (let lab' = resize_image ext lab h w;
               Ly = nrows lab'; Lx = ncols lab';
               pi = map (\<lambda>k. cv2_resize ext (p ! k) (Lx, Ly)) [0..<2]
           in ((lab', pi), logc Cv2Resize (logc Cv2Resize (logc ResizeImage st)))))"

text \<open>Lines 794-796.\<close>

definition sanitize :: "'tr externals \<Rightarrow> int ndarray \<Rightarrow> int \<Rightarrow> state \<Rightarrow> (py_error + int ndarray) \<times> state" where
  "sanitize ext lab min_size st =
     (case fill_holes_and_remove_small_masks ext lab min_size of
        Inl e \<Rightarrow> (Inl e, logc FillHoles st)
      | Inr lab' \<Rightarrow> (Inr (renumber lab'), logc Renumber (logc FillHoles st)))"

text \<open>Lines 668-789: everything before the cleanup.\<close>

definition reconstruct :: "model \<Rightarrow> 'tr externals \<Rightarrow> nat \<Rightarrow> real grid \<Rightarrow> real grid
    \<Rightarrow> vfield option \<Rightarrow> real \<Rightarrow> real \<Rightarrow> real \<Rightarrow> real \<Rightarrow> bool \<Rightarrow> bool \<Rightarrow> bool
    \<Rightarrow> (nat \<times> nat) option \<Rightarrow> bool \<Rightarrow> bool \<Rightarrow> state
    \<Rightarrow> (py_error + int ndarray \<times> vfield \<times> 'tr list) \<times> state" where
  "reconstruct self ext dP distf bd p niter dist_threshold diam_threshold flow_threshold
       interp cluster do_3D resize skel calc_trace st =
     (let msk = seed_mask (value_based_casting ext) skel distf dist_threshold
      in if np_any msk then
           (case (if \<not> skel
                  then orig_branch ext dP msk p niter flow_threshold interp do_3D skel calc_trace st
                  else skel_branch self ext dP distf bd msk diam_threshold interp cluster skel
                         calc_trace st) of
              (Inl e, st') \<Rightarrow> (Inl e, st')
            | (Inr (lab, q, tr), st') \<Rightarrow>
                (case resize_step ext resize lab q st' of
                   ((lab', q'), st'') \<Rightarrow> (Inr (Arr2 lab', q', tr), st'')))
         else (Inr (np_zeros resize, [[[0]], [[0]]], []), st))"

definition compute_masks :: "model \<Rightarrow> 'tr externals \<Rightarrow> nat \<Rightarrow> real grid \<Rightarrow> real grid
    \<Rightarrow> vfield option \<Rightarrow> real \<Rightarrow> real \<Rightarrow> real \<Rightarrow> real \<Rightarrow> bool \<Rightarrow> bool \<Rightarrow> bool \<Rightarrow> int
    \<Rightarrow> (nat \<times> nat) option \<Rightarrow> bool \<Rightarrow> bool \<Rightarrow> state
    \<Rightarrow> (py_error + int ndarray \<times> vfield \<times> 'tr list) \<times> state" where
  "compute_masks self ext dP distf bd p niter dist_threshold diam_threshold flow_threshold
       interp cluster do_3D min_size resize skel calc_trace st =
     (case reconstruct self ext dP distf bd p niter dist_threshold diam_threshold flow_threshold
             interp cluster do_3D resize skel calc_trace st of
        (Inl e, st1) \<Rightarrow> (Inl e, st1)
      | (Inr (lab, q, tr), st1) \<Rightarrow>
          (case sanitize ext lab min_size st1 of
             (Inl e, st2) \<Rightarrow> (Inl e, st2)
           | (Inr lab', st2) \<Rightarrow> (Inr (lab', q, tr), st2)))"

subsection \<open>Auxiliary notions\<close>

text \<open>The invariant of the renumbering dictionary: zero is kept, the other labels
  map onto \<open>1..<n\<close>.\<close>

definition dense_dict :: "(int \<Rightarrow> int option) \<Rightarrow> int \<Rightarrow> bool" where
  "dense_dict d n \<longleftrightarrow>
     d 0 = Some 0 \<and> 1 \<le> n \<and>
     (\<forall>v k. d v = Some k \<longrightarrow> (k = 0 \<longleftrightarrow> v = 0) \<and> 0 \<le> k \<and> k < n) \<and>
     (\<forall>k. 1 \<le> k \<and> k < n \<longrightarrow> (\<exists>v. d v = Some k))"

text \<open>The rounding before the overflow test.\<close>

definition quant :: "nat \<Rightarrow> int \<Rightarrow> real \<Rightarrow> real" where
  "quant p emax x =
     real_of_int (np_rint (x / pow2 (expo emax x - int p + 1))) * pow2 (expo emax x - int p + 1)"

text \<open>A small instance of the collaborators and of the state, to run the model on.\<close>

definition example_ext :: "unit externals" where
  "example_ext =
     \<lparr>follow_flows = (\<lambda>v m n i s c. (v, np_nonzero m, [])),
      get_masks = (\<lambda>p m f t. [[5, 0], [7, 5]]),
      dist_to_diam = (\<lambda>dt. 3),
      diameters = (\<lambda>m s. (3, 0)),
      normalize_field = (\<lambda>v. v),
      normalize99 = (\<lambda>dv. dv),
      DBSCAN = (\<lambda>eps k pts. map (\<lambda>p. - 1) pts),
      label_cc = (\<lambda>g c. map (map (\<lambda>b. if b then 1 else 0)) g),
      resize_image = (\<lambda>g h w. g),
      cv2_resize = (\<lambda>g s. g),
      fill_holes_and_remove_small_masks = (\<lambda>a k. Inr a),
      value_based_casting = True\<rparr>"

definition example_state :: state where
  "example_state = \<lparr>heap = [0 \<mapsto> [[[1, 0], [0, 1]], [[0, 1], [1, 0]]]], nxt = 1, calls = []\<rparr>"

text \<open>What a run leaves alone: every array that was alive before it.\<close>

definition frame :: "state \<Rightarrow> state \<Rightarrow> bool" where
  "frame st st' \<longleftrightarrow> nxt st \<le> nxt st' \<and> (\<forall>r < nxt st. heap st' r = heap st r)"

subsection \<open>The Mask Sanitizer\<close>

text \<open>
  Modelled from the spec: \<^verbatim>\<open>utils.fill_holes_and_remove_small_masks\<close> is called at line 794
  but \<^verbatim>\<open>cellpose/utils.py\<close> is not among the files at hand. Section 4.6 gives the
  operations, in this order: (1) fill the interior holes of each labelled region, a hole
  being a set of background pixels fully enclosed by one foreground label, and
  background connected to the image border never being a hole (section 8); (2) discard
  every instance whose pixel count is below \<open>min_size\<close>, which \<open>-1\<close> disables; (3)
  renumber. A hole is taken as a 4-connected component of the background that has no
  pixel on the border and whose neighbours all carry one label.
\<close>

definition background :: "int grid \<Rightarrow> bool grid" where
  "background L = map (map (\<lambda>v. v = 0)) L"

definition component :: "bool grid \<Rightarrow> nat \<Rightarrow> nat \<Rightarrow> bool grid" where
  "component m y x =
     connected_to_high m (tabulate (nrows m) (ncols m) (\<lambda>v u. v = y \<and> u = x))"

definition touches_border :: "bool grid \<Rightarrow> bool" where
  "touches_border c =
     list_ex (\<lambda>(v, u). v = 0 \<or> u = 0 \<or> Suc v = nrows c \<or> Suc u = ncols c) (np_nonzero c)"

definition neighbour_labels :: "int grid \<Rightarrow> bool grid \<Rightarrow> int list" where
  "neighbour_labels L c =
     concat (map (\<lambda>v. concat (map (\<lambda>u.
        if \<not> px c False (int v) (int u) \<and>
           (px c False (int v - 1) (int u) \<or> px c False (int v + 1) (int u) \<or>
            px c False (int v) (int u - 1) \<or> px c False (int v) (int u + 1))
        then [L ! v ! u] else []) [0..<ncols L])) [0..<nrows L])"

definition hole_label :: "int grid \<Rightarrow> nat \<Rightarrow> nat \<Rightarrow> int option" where
  "hole_label L y x =
     (let c = component (background L) y x
      in if touches_border c then None
         else (case remdups (neighbour_labels L c) of [k] \<Rightarrow> Some k | _ \<Rightarrow> None))"

definition fill_holes :: "int grid \<Rightarrow> int grid" where
  "fill_holes L =
     tabulate (nrows L) (ncols L) (\<lambda>y x.
       if L ! y ! x = 0 then (case hole_label L y x of Some k \<Rightarrow> k | None \<Rightarrow> 0)
       else L ! y ! x)"

definition remove_small_masks :: "int grid \<Rightarrow> int \<Rightarrow> int grid" where
  "remove_small_masks L min_size =
     map (map (\<lambda>v. if v \<noteq> 0 \<and> int (count_list (concat L) v) < min_size then 0 else v)) L"

fun grid_of :: "'a ndarray \<Rightarrow> 'a grid" where
  "grid_of (Arr2 g) = g"
| "grid_of _ = []"

definition mask_sanitizer :: "int grid \<Rightarrow> int \<Rightarrow> int grid" where
  "mask_sanitizer L min_size =
     grid_of (renumber (Arr2 (remove_small_masks (fill_holes L) min_size)))"

text \<open>Notions for the proofs about renumbering: a dictionary that is injective, one
  that is the identity on \<open>0..<n\<close>, the lists whose new values come in the order
  \<open>n, n+1, ...\<close>, and the lookup \<^verbatim>\<open>renumber\<close> applies.\<close>

definition inj_dict :: "(int \<Rightarrow> int option) \<Rightarrow> bool" where
  "inj_dict d \<longleftrightarrow> (\<forall>u v k. d u = Some k \<longrightarrow> d v = Some k \<longrightarrow> u = v)"

definition id_dict :: "(int \<Rightarrow> int option) \<Rightarrow> int \<Rightarrow> bool" where
  "id_dict d n \<longleftrightarrow> (\<forall>k. d k = (if 0 \<le> k \<and> k < n then Some k else None))"

fun first_order :: "int \<Rightarrow> int list \<Rightarrow> bool" where
  "first_order n [] = True"
| "first_order n (v # vs) =
     (if 0 \<le> v \<and> v < n then first_order n vs else v = n \<and> first_order (n + 1) vs)"

definition ap :: "(int \<Rightarrow> int option) \<Rightarrow> int \<Rightarrow> int" where
  "ap d v = (case d v of Some k \<Rightarrow> k | None \<Rightarrow> v)"

subsection \<open>An instance with clustering\<close>

text \<open>
  A second instance of the collaborators, on a 3 by 3 image: the flow carries every
  pixel to the corner \<open>(0, 0)\<close>, except the pixel \<open>(1, 1)\<close>, which stays; DBSCAN is cut
  down to its test for core points (at least \<open>min_samples\<close> points within \<open>eps\<close>,
  the point itself among them), which gives one cluster and the noise; the cleanup is
  the Mask Sanitizer above. The vector field of the state is zero.
\<close>

definition cluster_ext :: "unit externals" where
  "cluster_ext =
     \<lparr>follow_flows = (\<lambda>v m n i s c.
         ([tabulate (nrows m) (ncols m) (\<lambda>y x. if y = 1 \<and> x = 1 then 1 else 0),
           tabulate (nrows m) (ncols m) (\<lambda>y x. if y = 1 \<and> x = 1 then 1 else 0)],
          np_nonzero m, [])),
      get_masks = (\<lambda>p m f t. map (map (\<lambda>b. if b then 1 else 0)) m),
      dist_to_diam = (\<lambda>dt. 3),
      diameters = (\<lambda>m s. (3, 0)),
      normalize_field = (\<lambda>v. v),
      normalize99 = (\<lambda>dv. dv),
      DBSCAN = (\<lambda>eps k pts. map (\<lambda>q.
         if k \<le> length (filter (\<lambda>r. (fst q - fst r)\<^sup>2 + (snd q - snd r)\<^sup>2 \<le> eps\<^sup>2) pts)
         then 0 else - 1) pts),
      label_cc = (\<lambda>g c. map (map (\<lambda>b. if b then 1 else 0)) g),
      resize_image = (\<lambda>g h w. g),
      cv2_resize = (\<lambda>g s. g),
      fill_holes_and_remove_small_masks = (\<lambda>a k.
         case a of Arr2 g \<Rightarrow> Inr (Arr2 (remove_small_masks (fill_holes g) k))
         | _ \<Rightarrow> Inl ValueError),
      value_based_casting = True\<rparr>"

definition zero_state :: state where
  "zero_state = \<lparr>heap = [0 \<mapsto> [[[0, 0, 0], [0, 0, 0], [0, 0, 0]], [[0, 0, 0], [0, 0, 0], [0, 0, 0]]]],
                  nxt = 1, calls = []\<rparr>"

section \<open>Properties\<close>

subsection \<open>Rounding\<close>

lemma pow2_powr: "pow2 k = 2 powr (real_of_int k)"
  by (auto simp: pow2_def powr_realpow[symmetric] powr_minus divide_simps)

lemma pow2_pos [simp]: "0 < pow2 k"
  by (simp add: pow2_powr)

lemma pow2_nonneg [simp]: "0 \<le> pow2 k"
  by (simp add: pow2_powr)

lemma pow2_mono: "pow2 a \<le> pow2 b \<longleftrightarrow> a \<le> b"
  by (simp add: pow2_powr)

lemma pow2_less: "pow2 a < pow2 b \<longleftrightarrow> a < b"
  by (simp add: pow2_powr)

lemma search_eq:
  "k - int n \<le> j \<Longrightarrow> j \<le> k \<Longrightarrow> pow2 j \<le> x \<Longrightarrow> x < pow2 (j + 1) \<Longrightarrow> search n k x = j"
proof (induction n arbitrary: k)
  case 0
  then show ?case by simp
next
  case (Suc n)
  show ?case
  proof (cases "pow2 k \<le> x")
    case True
    with Suc.prems(4) have "pow2 k < pow2 (j + 1)" by simp
    then have "k < j + 1" by (simp add: pow2_less)
    with Suc.prems(2) True show ?thesis by simp
  next
    case False
    with Suc.prems(3) have "j \<noteq> k" by auto
    with Suc.prems have "search n (k - 1) x = j" by (intro Suc.IH) auto
    with False show ?thesis by simp
  qed
qed

lemma expo_eq:
  assumes "0 \<le> emax" "1 - emax \<le> e" "e \<le> emax + 1" "pow2 e \<le> \<bar>x\<bar>" "\<bar>x\<bar> < pow2 (e + 1)"
  shows "expo emax x = e"
  unfolding expo_def using assms by (intro search_eq) auto

lemma round_float_eval:
  assumes "0 \<le> emax" "1 - emax \<le> e" "e \<le> emax" "pow2 e \<le> \<bar>x\<bar>" "\<bar>x\<bar> < pow2 (e + 1)"
    and "r = real_of_int (np_rint (x / pow2 (e - int p + 1))) * pow2 (e - int p + 1)"
    and "\<bar>r\<bar> < pow2 (emax + 1)"
  shows "round_float p emax x = Fin r"
proof -
  have "expo emax x = e" using assms(1-5) by (intro expo_eq) auto
  with assms(6,7) show ?thesis by (simp add: round_float_def Let_def)
qed

lemma np_rint_0 [simp]: "np_rint 0 = 0"
  by (simp add: np_rint_def)

lemma round_float_0: "round_float p emax 0 = Fin 0"
  by (simp add: round_float_def Let_def not_le)

lemma np_rint_int [simp]: "np_rint (real_of_int n) = n"
  by (simp add: np_rint_def)



lemma float32_tenth: "float32 (3602879701896397 / 36028797018963968) = Fin (13421773 / 134217728)"
  unfolding float32_def
  by (rule round_float_eval[where e = "- 4"]) (simp_all add: pow2_def np_rint_def Let_def)

lemma np_rint_mono: "a \<le> b \<Longrightarrow> np_rint a \<le> np_rint b"
proof -
  assume ab: "a \<le> b"
  then have f: "\<lfloor>a\<rfloor> \<le> \<lfloor>b\<rfloor>" by (rule floor_mono)
  have la: "np_rint a \<le> \<lfloor>a\<rfloor> + 1" and lb: "\<lfloor>b\<rfloor> \<le> np_rint b"
    by (auto simp: np_rint_def Let_def)
  show ?thesis
  proof (cases "\<lfloor>a\<rfloor> = \<lfloor>b\<rfloor>")
    case True
    with ab show ?thesis by (auto simp: np_rint_def Let_def)
  next
    case False
    with f la lb show ?thesis by linarith
  qed
qed

lemma np_rint_ge: "real_of_int n \<le> a \<Longrightarrow> n \<le> np_rint a"
  using np_rint_mono[of "real_of_int n" a] by simp

lemma np_rint_le: "a \<le> real_of_int n \<Longrightarrow> np_rint a \<le> n"
  using np_rint_mono[of a "real_of_int n"] by simp

lemma search_range: "k - int n \<le> search n k x \<and> search n k x \<le> k"
proof (induction n arbitrary: k)
  case 0
  then show ?case by simp
next
  case (Suc n)
  from Suc[of "k - 1"] show ?case by auto
qed

lemma search_lower: "k - int n < search n k x \<Longrightarrow> pow2 (search n k x) \<le> x"
proof (induction n arbitrary: k)
  case 0
  then show ?case by simp
next
  case (Suc n)
  then show ?case by (cases "pow2 k \<le> x") auto
qed

lemma search_upper: "search n k x < k \<Longrightarrow> x < pow2 (search n k x + 1)"
proof (induction n arbitrary: k)
  case 0
  then show ?case by simp
next
  case (Suc n)
  show ?case
  proof (cases "pow2 k \<le> x")
    case True
    with Suc.prems show ?thesis by simp
  next
    case False
    show ?thesis
    proof (cases "search n (k - 1) x < k - 1")
      case True
      from Suc.IH[OF True] False show ?thesis by simp
    next
      case b: False
      with search_range[of "k - 1" n x] have "search n (k - 1) x = k - 1" by simp
      with False show ?thesis by simp
    qed
  qed
qed

lemma search_mono: "x \<le> y \<Longrightarrow> search n k x \<le> search n k y"
proof (induction n arbitrary: k)
  case 0
  then show ?case by simp
next
  case (Suc n)
  from search_range[of "k - 1" n x] have "search n (k - 1) x \<le> k" by simp
  with Suc.IH[OF Suc.prems, of "k - 1"] Suc.prems show ?case by auto
qed

lemma expo_range: "0 \<le> emax \<Longrightarrow> 1 - emax \<le> expo emax x \<and> expo emax x \<le> emax + 1"
  using search_range[of "emax + 1" "nat (2 * emax)" "\<bar>x\<bar>"] by (simp add: expo_def)

lemma expo_lower: "0 \<le> emax \<Longrightarrow> 1 - emax < expo emax x \<Longrightarrow> pow2 (expo emax x) \<le> \<bar>x\<bar>"
  using search_lower[of "emax + 1" "nat (2 * emax)" "\<bar>x\<bar>"] by (simp add: expo_def)

lemma expo_upper: "expo emax x < emax + 1 \<Longrightarrow> \<bar>x\<bar> < pow2 (expo emax x + 1)"
  using search_upper[of "nat (2 * emax)" "emax + 1" "\<bar>x\<bar>"] by (simp add: expo_def)

lemma expo_mono: "\<bar>x\<bar> \<le> \<bar>y\<bar> \<Longrightarrow> expo emax x \<le> expo emax y"
  by (simp add: expo_def search_mono)

lemma round_float_quant:
  "round_float p emax x =
     (if pow2 (emax + 1) \<le> \<bar>quant p emax x\<bar> then (if x < 0 then NegInf else PosInf)
      else Fin (quant p emax x))"
  by (simp add: round_float_def quant_def Let_def)

lemma pow2_add: "pow2 (a + b) = pow2 a * pow2 b"
  by (simp add: pow2_powr powr_add)

lemma pow2_nat: "pow2 (int n) = real_of_int (2 ^ n)"
  by (simp add: pow2_def)

lemma quant_sign: "(0 \<le> x \<longrightarrow> 0 \<le> quant p emax x) \<and> (x \<le> 0 \<longrightarrow> quant p emax x \<le> 0)"
proof -
  let ?u = "pow2 (expo emax x - int p + 1)"
  have u: "0 < ?u" by simp
  have a: "0 \<le> np_rint (x / ?u)" if "0 \<le> x"
  proof -
    from that have "real_of_int 0 \<le> x / ?u" by simp
    then show ?thesis by (rule np_rint_ge)
  qed
  have b: "np_rint (x / ?u) \<le> 0" if "x \<le> 0"
  proof -
    from that u have "x / ?u \<le> real_of_int 0" by (simp add: divide_nonpos_pos)
    then show ?thesis by (rule np_rint_le)
  qed
  from a b u show ?thesis
    by (auto simp: quant_def mult_nonneg_nonneg mult_nonpos_nonneg)
qed

lemma quant_upper:
  assumes p: "0 < p" and e: "expo emax x < emax + 1"
  shows "\<bar>quant p emax x\<bar> \<le> pow2 (expo emax x + 1)"
proof -
  let ?e = "expo emax x"
  let ?u = "pow2 (?e - int p + 1)"
  have u: "0 < ?u" by simp
  have split: "pow2 (?e + 1) = real_of_int (2 ^ p) * ?u"
    using pow2_add[of "int p" "?e - int p + 1"] by (simp add: pow2_nat)
  from expo_upper[OF e] have x: "\<bar>x\<bar> < real_of_int (2 ^ p) * ?u" unfolding split .
  then have "x / ?u \<le> real_of_int (2 ^ p)" and "real_of_int (- (2 ^ p)) \<le> x / ?u"
    using u by (simp_all add: field_simps abs_less_iff)
  then have "np_rint (x / ?u) \<le> 2 ^ p" and "- (2 ^ p) \<le> np_rint (x / ?u)"
    by (auto intro: np_rint_le np_rint_ge)
  then have "real_of_int (np_rint (x / ?u)) \<le> real_of_int (2 ^ p)"
    and "real_of_int (- (2 ^ p)) \<le> real_of_int (np_rint (x / ?u))"
    by (simp_all only: of_int_le_iff)
  then have "\<bar>real_of_int (np_rint (x / ?u))\<bar> \<le> real_of_int (2 ^ p)"
    by (simp add: abs_le_iff)
  then have "\<bar>real_of_int (np_rint (x / ?u))\<bar> * ?u \<le> real_of_int (2 ^ p) * ?u"
    using u by (simp add: mult_right_mono)
  then show ?thesis unfolding split quant_def by (simp add: abs_mult)
qed

lemma quant_lower:
  assumes p: "0 < p" and e: "pow2 (expo emax x) \<le> \<bar>x\<bar>"
  shows "(0 \<le> x \<longrightarrow> pow2 (expo emax x) \<le> quant p emax x) \<and>
         (x \<le> 0 \<longrightarrow> quant p emax x \<le> - pow2 (expo emax x))"
proof -
  let ?e = "expo emax x"
  let ?u = "pow2 (?e - int p + 1)"
  have u: "0 < ?u" by simp
  have "pow2 (int (p - 1)) = real_of_int (2 ^ (p - 1))" by (rule pow2_nat)
  moreover have "int (p - 1) + (?e - int p + 1) = ?e" using p by simp
  ultimately have split: "pow2 ?e = real_of_int (2 ^ (p - 1)) * ?u"
    using pow2_add[of "int (p - 1)" "?e - int p + 1"] by simp
  have a: "pow2 ?e \<le> quant p emax x" if "0 \<le> x"
  proof -
    from e that have "real_of_int (2 ^ (p - 1)) * ?u \<le> x" unfolding split by simp
    then have "real_of_int (2 ^ (p - 1)) \<le> x / ?u" using u by (simp add: field_simps)
    then have "2 ^ (p - 1) \<le> np_rint (x / ?u)" by (rule np_rint_ge)
    then have "real_of_int (2 ^ (p - 1)) \<le> real_of_int (np_rint (x / ?u))" by linarith
    then have "real_of_int (2 ^ (p - 1)) * ?u \<le> real_of_int (np_rint (x / ?u)) * ?u"
      using u by (simp add: mult_right_mono)
    then show ?thesis unfolding split quant_def .
  qed
  have b: "quant p emax x \<le> - pow2 ?e" if "x \<le> 0"
  proof -
    from e that have "x \<le> - (real_of_int (2 ^ (p - 1)) * ?u)" unfolding split by simp
    then have "x / ?u \<le> real_of_int (- (2 ^ (p - 1)))" using u by (simp add: field_simps)
    then have "np_rint (x / ?u) \<le> - (2 ^ (p - 1))" by (rule np_rint_le)
    then have "real_of_int (np_rint (x / ?u)) \<le> - real_of_int (2 ^ (p - 1))" by linarith
    then have "real_of_int (np_rint (x / ?u)) * ?u \<le> (- real_of_int (2 ^ (p - 1))) * ?u"
      using u by (intro mult_right_mono) simp_all
    then show ?thesis unfolding split quant_def by simp
  qed
  from a b show ?thesis by blast
qed

lemma quant_same_expo:
  assumes "x \<le> y" and "expo emax x = expo emax y"
  shows "quant p emax x \<le> quant p emax y"
proof -
  let ?u = "pow2 (expo emax y - int p + 1)"
  have u: "0 < ?u" by simp
  from assms(1) u have "x / ?u \<le> y / ?u" by (simp add: divide_right_mono)
  then have "np_rint (x / ?u) \<le> np_rint (y / ?u)" by (rule np_rint_mono)
  then have "real_of_int (np_rint (x / ?u)) * ?u \<le> real_of_int (np_rint (y / ?u)) * ?u"
    using u by (simp add: mult_right_mono)
  then show ?thesis unfolding quant_def assms(2) .
qed

lemma quant_mono:
  assumes p: "0 < p" and m: "0 \<le> emax" and xy: "x \<le> y"
  shows "quant p emax x \<le> quant p emax y"
proof -
  consider (mixed) "x \<le> 0" "0 \<le> y" | (pos) "0 \<le> x" | (neg) "y \<le> 0"
    by linarith
  then show ?thesis
  proof cases
    case mixed
    with quant_sign[of x p emax] quant_sign[of y p emax] show ?thesis by linarith
  next
    case pos
    with xy have ab: "\<bar>x\<bar> \<le> \<bar>y\<bar>" and y0: "0 \<le> y" by simp_all
    show ?thesis
    proof (cases "expo emax x = expo emax y")
      case True
      with xy show ?thesis by (rule quant_same_expo)
    next
      case False
      with expo_mono[OF ab, of emax] have lt: "expo emax x < expo emax y" by simp
      with expo_range[OF m, of y] have "expo emax x < emax + 1" by simp
      from quant_upper[OF p this] have 1: "quant p emax x \<le> pow2 (expo emax x + 1)" by simp
      from lt have 2: "pow2 (expo emax x + 1) \<le> pow2 (expo emax y)" by (simp add: pow2_mono)
      from lt expo_range[OF m, of x] have "1 - emax < expo emax y" by simp
      from expo_lower[OF m this] quant_lower[OF p, of emax y] y0
      have 3: "pow2 (expo emax y) \<le> quant p emax y" by simp
      from 1 2 3 show ?thesis by linarith
    qed
  next
    case neg
    with xy have ab: "\<bar>y\<bar> \<le> \<bar>x\<bar>" and x0: "x \<le> 0" by simp_all
    show ?thesis
    proof (cases "expo emax x = expo emax y")
      case True
      with xy show ?thesis by (rule quant_same_expo)
    next
      case False
      with expo_mono[OF ab, of emax] have lt: "expo emax y < expo emax x" by simp
      with expo_range[OF m, of x] have "expo emax y < emax + 1" by simp
      from quant_upper[OF p this] have 1: "- pow2 (expo emax y + 1) \<le> quant p emax y" by simp
      from lt have 2: "pow2 (expo emax y + 1) \<le> pow2 (expo emax x)" by (simp add: pow2_mono)
      from lt expo_range[OF m, of y] have "1 - emax < expo emax x" by simp
      from expo_lower[OF m this] quant_lower[OF p, of emax x] x0
      have 3: "quant p emax x \<le> - pow2 (expo emax x)" by simp
      from 1 2 3 show ?thesis by linarith
    qed
  qed
qed

lemma round_float_mono:
  assumes p: "0 < p" and m: "0 \<le> emax" and xy: "x \<le> y"
  shows "xle (round_float p emax x) (round_float p emax y)"
proof -
  note q = quant_mono[OF p m xy]
  note sx = quant_sign[of x p emax] and sy = quant_sign[of y p emax]
  have P: "0 < pow2 (emax + 1)" by simp
  show ?thesis
    unfolding round_float_quant xle_def
    using q sx sy xy P by (auto split: xfloat.splits) 
qed

lemma float32_0 [simp]: "float32 0 = Fin 0"
  by (simp add: float32_def round_float_0)

lemma float64_minus_1: "float64 (- 1) = Fin (- 1)"
  unfolding float64_def
  by (rule round_float_eval[where e = 0]) (simp_all add: pow2_def np_rint_def Let_def)

lemma float32_minus_1: "float32 (- 1) = Fin (- 1)"
  unfolding float32_def
  by (rule round_float_eval[where e = 0]) (simp_all add: pow2_def np_rint_def Let_def)

lemma float32_1: "float32 1 = Fin 1"
  unfolding float32_def
  by (rule round_float_eval[where e = 0]) (simp_all add: pow2_def np_rint_def Let_def)

lemma float32_minus_half: "float32 (- (1 / 2)) = Fin (- (1 / 2))"
  unfolding float32_def
  by (rule round_float_eval[where e = "- 1"]) (simp_all add: pow2_def np_rint_def Let_def)

lemma float32_minus_2: "float32 (- 2) = Fin (- 2)"
  unfolding float32_def
  by (rule round_float_eval[where e = 1]) (simp_all add: pow2_def np_rint_def Let_def)

subsection \<open>Grids and the flood\<close>

lemma nrows_tabulate [simp]: "nrows (tabulate Ly Lx f) = Ly"
  by (simp add: nrows_def tabulate_def)

lemma ncols_tabulate [simp]: "ncols (tabulate Ly Lx f) = (if Ly = 0 then 0 else Lx)"
  by (cases Ly) (simp_all add: ncols_def tabulate_def upt_conv_Cons del: upt_Suc)

lemma tabulate_nth: "y < Ly \<Longrightarrow> x < Lx \<Longrightarrow> tabulate Ly Lx f ! y ! x = f y x"
  by (simp add: tabulate_def)

lemma px_tabulate:
  "px (tabulate Ly Lx f) bv y x =
     (if 0 \<le> y \<and> y < int Ly \<and> 0 \<le> x \<and> x < int Lx then f (nat y) (nat x) else bv)"
  by (auto simp: px_def tabulate_nth)

lemma px_False_range:
  "px g False y x \<Longrightarrow> 0 \<le> y \<and> y < int (nrows g) \<and> 0 \<le> x \<and> x < int (ncols g)"
  by (auto simp: px_def split: if_splits)



lemma gset_spread: "gset (spread lowm cur) = flood (gset lowm) (gset cur)"
proof -
  have "px (spread lowm cur) False y x \<longleftrightarrow>
        px lowm False y x \<and> (px cur False y x \<or> px cur False (y - 1) x \<or> px cur False (y + 1) x
           \<or> px cur False y (x - 1) \<or> px cur False y (x + 1))" for y x
  proof (cases "0 \<le> y \<and> y < int (nrows lowm) \<and> 0 \<le> x \<and> x < int (ncols lowm)")
    case True
    then show ?thesis by (simp add: spread_def px_tabulate)
  next
    case False
    then have "\<not> px lowm False y x" using px_False_range by blast
    with False show ?thesis by (simp add: spread_def px_tabulate)
  qed
  then show ?thesis by (simp add: gset_def flood_def)
qed

lemma gset_funpow:
  "gset ((spread lowm ^^ k) c) = (flood (gset lowm) ^^ k) (gset c)"
  by (induction k) (simp_all add: gset_spread)

lemma funpow_chain:
  fixes F :: "'a set \<Rightarrow> 'a set"
  assumes inc: "\<And>S. S \<subseteq> D \<Longrightarrow> S \<subseteq> F S \<and> F S \<subseteq> D" and S0: "S0 \<subseteq> D"
  shows "S0 \<subseteq> (F ^^ k) S0 \<and> (F ^^ k) S0 \<subseteq> D"
proof (induction k)
  case 0
  then show ?case using S0 by simp
next
  case (Suc k)
  then show ?case using inc[of "(F ^^ k) S0"] by auto
qed

lemma funpow_fix:
  fixes F :: "'a set \<Rightarrow> 'a set"
  assumes inc: "\<And>S. S \<subseteq> D \<Longrightarrow> S \<subseteq> F S \<and> F S \<subseteq> D"
    and fin: "finite D" and S0: "S0 \<subseteq> D" and n: "card D \<le> n"
  shows "F ((F ^^ n) S0) = (F ^^ n) S0"
proof -
  have sub: "(F ^^ k) S0 \<subseteq> D" for k
    using funpow_chain[of D F S0 k] inc S0 by blast
  have inv: "F ((F ^^ k) S0) = (F ^^ k) S0 \<or> k \<le> card ((F ^^ k) S0)" for k
  proof (induction k)
    case 0
    then show ?case by simp
  next
    case (Suc k)
    show ?case
    proof (cases "F ((F ^^ k) S0) = (F ^^ k) S0")
      case True
      then show ?thesis by simp
    next
      case False
      with Suc have k: "k \<le> card ((F ^^ k) S0)" by simp
      from False inc[OF sub[of k]] have "(F ^^ k) S0 \<subset> F ((F ^^ k) S0)" by blast
      moreover have "finite (F ((F ^^ k) S0))"
        using inc[OF sub[of k]] fin by (meson finite_subset)
      ultimately have "card ((F ^^ k) S0) < card (F ((F ^^ k) S0))"
        by (simp add: psubset_card_mono)
      with k show ?thesis by simp
    qed
  qed
  show ?thesis
  proof (cases "F ((F ^^ n) S0) = (F ^^ n) S0")
    case True
    then show ?thesis .
  next
    case False
    with inv[of n] n have "card D \<le> card ((F ^^ n) S0)" by simp
    with sub[of n] fin have "(F ^^ n) S0 = D" by (simp add: card_seteq)
    with inc[of D] show ?thesis by auto
  qed
qed

lemma flood_inc: "S \<subseteq> Lw \<Longrightarrow> S \<subseteq> flood Lw S \<and> flood Lw S \<subseteq> Lw"
  by (auto simp: flood_def)

lemma gset_range: "gset g \<subseteq> {0..<int (nrows g)} \<times> {0..<int (ncols g)}"
  using px_False_range by (auto simp: gset_def)

lemma gset_finite: "finite (gset g)"
  by (rule finite_subset[OF gset_range]) simp

lemma gset_card: "card (gset g) \<le> nrows g * ncols g"
proof -
  have "card (gset g) \<le> card ({0..<int (nrows g)} \<times> {0..<int (ncols g)})"
    by (rule card_mono[OF _ gset_range]) simp
  then show ?thesis by (simp add: card_cartesian_product)
qed


lemma nrows_map [simp]: "nrows (map (map f) g) = nrows g"
  by (simp add: nrows_def)

lemma ncols_map [simp]: "ncols (map (map f) g) = ncols g"
  by (cases g) (simp_all add: ncols_def)

lemma rect_nth: "rect g \<Longrightarrow> y < nrows g \<Longrightarrow> length (g ! y) = ncols g"
  by (simp add: rect_def nrows_def list_all_length)

lemma px_threshold:
  assumes "rect img"
  shows "px (map (map (\<lambda>v. fgt v t)) img) False y x = above img t y x"
proof (cases "0 \<le> y \<and> y < int (nrows img) \<and> 0 \<le> x \<and> x < int (ncols img)")
  case True
  then have y: "nat y < nrows img" and x: "nat x < ncols img" by auto
  from rect_nth[OF assms y] x have "nat x < length (img ! nat y)" by simp
  with True y show ?thesis by (simp add: px_def above_def nrows_def)
next
  case False
  then show ?thesis by (auto simp: px_def above_def)
qed

lemma shape_funpow_spread:
  "nrows ((spread lowm ^^ k) (tabulate (nrows lowm) (ncols lowm) f)) = nrows lowm \<and>
   ncols ((spread lowm ^^ k) (tabulate (nrows lowm) (ncols lowm) f)) =
     (if nrows lowm = 0 then 0 else ncols lowm)"
  by (cases k) (simp_all add: spread_def)

lemma connected_to_high_gset:
  assumes sub: "gset highm \<subseteq> gset lowm"
  defines "R \<equiv> gset (connected_to_high lowm highm)"
  shows "gset highm \<subseteq> R" and "R \<subseteq> gset lowm" and "flood (gset lowm) R = R"
    and "R = (flood (gset lowm) ^^ (nrows lowm * ncols lowm)) (gset highm)"
proof -
  let ?init = "tabulate (nrows lowm) (ncols lowm) (\<lambda>y x.
          px lowm False (int y) (int x) \<and> px highm False (int y) (int x))"
  have "px ?init False y x \<longleftrightarrow> px lowm False y x \<and> px highm False y x" for y x
  proof (cases "0 \<le> y \<and> y < int (nrows lowm) \<and> 0 \<le> x \<and> x < int (ncols lowm)")
    case True
    then show ?thesis by (simp add: px_tabulate)
  next
    case False
    then have "\<not> px lowm False y x" using px_False_range by blast
    with False show ?thesis by (simp add: px_tabulate)
  qed
  then have "gset ?init = gset lowm \<inter> gset highm" by (auto simp: gset_def)
  with sub have init: "gset ?init = gset highm" by blast
  show R: "R = (flood (gset lowm) ^^ (nrows lowm * ncols lowm)) (gset highm)"
    by (simp add: R_def connected_to_high_def gset_funpow init)
  from funpow_chain[of "gset lowm" "flood (gset lowm)" "gset highm", OF flood_inc sub]
  show "gset highm \<subseteq> R" and "R \<subseteq> gset lowm" unfolding R by blast+
  show "flood (gset lowm) R = R" unfolding R
    by (rule funpow_fix[of "gset lowm", OF flood_inc gset_finite sub gset_card])
qed


lemma xle_refl [simp]: "xle a a"
  by (cases a) (simp_all add: xle_def)

lemma fgt_xle: "xle a b \<Longrightarrow> fgt v b \<Longrightarrow> fgt v a"
  by (auto simp: xle_def fgt_def split: xfloat.splits)

lemma xmin_le: "xle (xmin a b) b"
  by (simp add: xmin_def)

lemma float32_mono: "x \<le> y \<Longrightarrow> xle (float32 x) (float32 y)"
  unfolding float32_def by (rule round_float_mono) simp_all

lemma xle_simps [simp]:
  "xle NegInf b" "xle a PosInf" "xle (Fin x) (Fin y) = (x \<le> y)"
  "xle PosInf b = (b = PosInf)" "xle a NegInf = (a = NegInf)"
  by (cases a; cases b; simp add: xle_def)+

lemma to_float32_mono: "xle a b \<Longrightarrow> xle (to_float32 a) (to_float32 b)"
  by (cases a; cases b) (simp_all add: to_float32_def float32_mono)

lemma float32_above:
  assumes "float32 v = Fin v" and "fgt v (to_float32 h)"
  shows "fgt v h"
proof (cases h)
  case (Fin t)
  show ?thesis
  proof (rule ccontr)
    assume "\<not> fgt v h"
    with Fin have "v \<le> t" by (simp add: fgt_def)
    from float32_mono[OF this] assms(1) have "xle (Fin v) (to_float32 h)"
      by (simp add: Fin to_float32_def)
    from fgt_xle[OF this assms(2)] show False by (simp add: fgt_def)
  qed
next
  case PosInf
  with assms(2) show ?thesis by (simp add: to_float32_def)
next
  case NegInf
  then show ?thesis by (simp add: fgt_def)
qed

lemma thresholds_ordered:
  assumes "value_based \<or> float32 v = Fin v" and "fgt v (to_float32 high)"
  shows "fgt v (if value_based then to_float32 (xmin low high) else xmin low high)"
proof (cases value_based)
  case True
  from to_float32_mono[OF xmin_le[of low high]] assms(2) True show ?thesis
    by (auto intro: fgt_xle)
next
  case False
  with assms have "fgt v high" by (auto intro: float32_above)
  with fgt_xle[OF xmin_le[of low high]] False show ?thesis by simp
qed

lemma float64_mono: "x \<le> y \<Longrightarrow> xle (float64 x) (float64 y)"
  unfolding float64_def by (rule round_float_mono) simp_all

lemma float64_pow2_127: "float64 (2 ^ 127) = Fin (2 ^ 127)" "float64 (- (2 ^ 127)) = Fin (- (2 ^ 127))"
  unfolding float64_def
  by (rule round_float_eval[where e = 127]; simp add: pow2_def np_rint_def Let_def)+

lemma float64_bounded:
  assumes "\<bar>x\<bar> \<le> 2 ^ 127"
  shows "\<exists>r. float64 x = Fin r \<and> \<bar>r\<bar> \<le> 2 ^ 127"
proof -
  from assms have "x \<le> 2 ^ 127" and "- (2 ^ 127) \<le> x" by simp_all
  from float64_mono[OF this(1)] float64_mono[OF this(2)]
  have "xle (float64 x) (Fin (2 ^ 127))" and "xle (Fin (- (2 ^ 127))) (float64 x)"
    by (simp_all only: float64_pow2_127)
  then show ?thesis by (cases "float64 x") (simp_all add: abs_le_iff)
qed

lemma casts_small:
  assumes "\<bar>t\<bar> \<le> 10 ^ 38"
  shows "weak_scalar vb (Fin t) = float32 t"
    and "float64_scalar vb (xmin (float64 (t - 1)) (Fin t))
         = (if vb then to_float32 (xmin (float64 (t - 1)) (Fin t)) else xmin (float64 (t - 1)) (Fin t))"
proof -
  have b: "(10 :: real) ^ 38 + 1 \<le> 2 ^ 127" by simp
  from assms have t: "- (34 * 10 ^ 37) < t \<and> t < 34 * 10 ^ 37" by (simp add: abs_le_iff)
  then show "weak_scalar vb (Fin t) = float32 t"
    by (simp add: weak_scalar_def value_cast_def to_float32_def)
  from assms b have "\<bar>t - 1\<bar> \<le> 2 ^ 127" by (simp add: abs_le_iff)
  from float64_bounded[OF this] obtain r where r: "float64 (t - 1) = Fin r" "\<bar>r\<bar> \<le> 2 ^ 127"
    by blast
  have c: "(2 :: real) ^ 127 < 34 * 10 ^ 37" by simp
  with r(2) have r': "- (34 * 10 ^ 37) < r \<and> r < 34 * 10 ^ 37" by (simp add: abs_le_iff)
  have "value_cast (xmin (Fin r) (Fin t)) = to_float32 (xmin (Fin r) (Fin t))"
    using t r' by (simp add: xmin_def value_cast_def to_float32_def)
  then show "float64_scalar vb (xmin (float64 (t - 1)) (Fin t))
         = (if vb then to_float32 (xmin (float64 (t - 1)) (Fin t)) else xmin (float64 (t - 1)) (Fin t))"
    by (simp add: float64_scalar_def r(1))
qed

lemma flood_adjacent:
  "\<bar>y - y'\<bar> + \<bar>x - x'\<bar> = (1::int) \<Longrightarrow> (y', x') \<in> S \<Longrightarrow> (y, x) \<in> Lw \<Longrightarrow> (y, x) \<in> flood Lw S"
proof -
  assume a: "\<bar>y - y'\<bar> + \<bar>x - x'\<bar> = (1::int)" and s: "(y', x') \<in> S" and l: "(y, x) \<in> Lw"
  from a have "(y' = y - 1 \<and> x' = x) \<or> (y' = y + 1 \<and> x' = x) \<or> (y' = y \<and> x' = x - 1)
      \<or> (y' = y \<and> x' = x + 1)" by arith
  with s l show ?thesis by (auto simp: flood_def)
qed

lemma hysteresis_flood:
  assumes r: "rect img" and lh: "\<And>y x. above img high y x \<Longrightarrow> above img low y x"
  shows "(y, x) \<in> gset (connected_to_high (map (map (\<lambda>v. fgt v low)) img)
                            (map (map (\<lambda>v. fgt v high)) img))
         \<longleftrightarrow> hysteresis_spec img low high y x"
proof -
  let ?lowm = "map (map (\<lambda>v. fgt v low)) img" and ?highm = "map (map (\<lambda>v. fgt v high)) img"
  let ?R = "gset (connected_to_high ?lowm ?highm)"
  have lw: "gset ?lowm = {(y, x). above img low y x}"
    and hw: "gset ?highm = {(y, x). above img high y x}"
    by (simp_all add: gset_def px_threshold[OF r])
  have sub: "gset ?highm \<subseteq> gset ?lowm"
    unfolding lw hw using lh by auto
  note c = connected_to_high_gset[OF sub]
  have "hysteresis_spec img low high y x \<Longrightarrow> (y, x) \<in> ?R"
  proof (induction rule: hysteresis_spec.induct)
    case (seed y x)
    then show ?case using c(1) hw by auto
  next
    case (grow y' x' y x)
    then have "(y, x) \<in> flood (gset ?lowm) ?R"
      by (intro flood_adjacent[of y y' x x']) (auto simp: lw)
    then show ?case by (simp only: c(3))
  qed
  moreover have "(flood (gset ?lowm) ^^ k) (gset ?highm) \<subseteq> {(y, x). hysteresis_spec img low high y x}" for k
  proof (induction k)
    case 0
    then show ?case by (auto simp: hw intro: hysteresis_spec.seed)
  next
    case (Suc k)
    show ?case
    proof
      fix p assume p: "p \<in> (flood (gset ?lowm) ^^ Suc k) (gset ?highm)"
      obtain y x where yx: "p = (y, x)" by (cases p)
      let ?S = "(flood (gset ?lowm) ^^ k) (gset ?highm)"
      from p yx have l: "above img low y x"
        and n: "(y, x) \<in> ?S \<or> (y - 1, x) \<in> ?S \<or> (y + 1, x) \<in> ?S \<or> (y, x - 1) \<in> ?S \<or> (y, x + 1) \<in> ?S"
        by (auto simp: flood_def lw)
      from n Suc l have "hysteresis_spec img low high y x"
        by (auto intro: hysteresis_spec.grow[of img low high "y - 1" x y x]
            hysteresis_spec.grow[of img low high "y + 1" x y x]
            hysteresis_spec.grow[of img low high y "x - 1" y x]
            hysteresis_spec.grow[of img low high y "x + 1" y x])
      with yx show "p \<in> {(y, x). hysteresis_spec img low high y x}" by simp
    qed
  qed
  ultimately show ?thesis unfolding c(4) by blast
qed

lemma px_nth: "y < nrows g \<Longrightarrow> x < ncols g \<Longrightarrow> px g bv (int y) (int x) = g ! y ! x"
  by (simp add: px_def)

lemma shape_apply_hysteresis_threshold:
  "nrows (apply_hysteresis_threshold vb img low high) = nrows img \<and>
   ncols (apply_hysteresis_threshold vb img low high) = ncols img"
proof -
  have "ncols img = 0" if "nrows img = 0"
    using that by (simp add: nrows_def ncols_def)
  then show ?thesis
    using shape_funpow_spread[where lowm = "map (map (\<lambda>v. fgt v (float64_scalar vb (xmin low high)))) img"]
    by (auto simp: apply_hysteresis_threshold_def connected_to_high_def Let_def)
qed

lemma float32_array_nth:
  assumes "rect a" "float32_array a" "y < nrows a" "x < ncols a"
  shows "float32 (a ! y ! x) = Fin (a ! y ! x)"
proof -
  from rect_nth[OF assms(1,3)] assms(4) have "x < length (a ! y)" by simp
  with assms(2,3) show ?thesis
    by (simp add: float32_array_def list_all_length nrows_def)
qed

lemma seed_mask_2d:
  assumes "rect distf" and "vb \<or> float32_array distf" and "y < nrows distf" and "x < ncols distf"
    and t: "\<bar>t\<bar> \<le> 10 ^ 38"
  shows "seed_mask vb False distf t ! y ! x = fgt (distf ! y ! x) (float32 t) \<and>
         seed_mask vb True distf t ! y ! x =
           hysteresis_spec distf
             (if vb then to_float32 (xmin (float64 (t - 1)) (Fin t)) else xmin (float64 (t - 1)) (Fin t))
             (float32 t) (int y) (int x)"
proof -
  note c = casts_small[OF t, of vb]
  let ?lo = "if vb then to_float32 (xmin (float64 (t - 1)) (Fin t)) else xmin (float64 (t - 1)) (Fin t)"
  have "length (distf ! y) = ncols distf" using assms by (simp add: rect_nth)
  with assms have a: "seed_mask vb False distf t ! y ! x = fgt (distf ! y ! x) (float32 t)"
    by (simp add: seed_mask_def nrows_def c(1))
  have ord: "above distf ?lo y x" if h: "above distf (float32 t) y x" for y x
  proof -
    from h have y: "nat y < nrows distf" and x: "nat x < ncols distf" by (auto simp: above_def)
    have "vb \<or> float32 (distf ! nat y ! nat x) = Fin (distf ! nat y ! nat x)"
      using assms(2) float32_array_nth[OF assms(1) _ y x] by blast
    from thresholds_ordered[OF this, of "Fin t" "float64 (t - 1)"] h show ?thesis
      by (simp add: above_def to_float32_def)
  qed
  let ?R = "apply_hysteresis_threshold vb distf (float64 (t - 1)) (Fin t)"
  have R: "?R = connected_to_high (map (map (\<lambda>v. fgt v ?lo)) distf) (map (map (\<lambda>v. fgt v (float32 t))) distf)"
    unfolding apply_hysteresis_threshold_def Let_def c ..
  have "?R ! y ! x = px ?R False (int y) (int x)"
    using assms shape_apply_hysteresis_threshold[of vb distf "float64 (t - 1)" "Fin t"] by (simp add: px_nth)
  also have "\<dots> = hysteresis_spec distf ?lo (float32 t) (int y) (int x)"
    using hysteresis_flood[OF assms(1) ord, where y = "int y" and x = "int x"] unfolding R by (simp add: gset_def)
  finally show ?thesis using a by (simp add: seed_mask_def)
qed

subsection \<open>Volumes\<close>

lemma nplanes_tabulate3 [simp]: "nplanes (tabulate3 Lz Ly Lx f) = Lz"
  by (simp add: nplanes_def tabulate3_def)

lemma vrows_tabulate3 [simp]: "vrows (tabulate3 Lz Ly Lx f) = (if Lz = 0 then 0 else Ly)"
  by (cases Lz) (simp_all add: vrows_def tabulate3_def upt_conv_Cons del: upt_Suc)

lemma vcols_tabulate3 [simp]:
  "vcols (tabulate3 Lz Ly Lx f) = (if Lz = 0 \<or> Ly = 0 then 0 else Lx)"
  by (cases Lz) (simp_all add: vcols_def tabulate3_def upt_conv_Cons del: upt_Suc)

lemma tabulate3_nth:
  "z < Lz \<Longrightarrow> y < Ly \<Longrightarrow> x < Lx \<Longrightarrow> tabulate3 Lz Ly Lx f ! z ! y ! x = f z y x"
  by (simp add: tabulate3_def tabulate_nth)

lemma vx_tabulate3:
  "vx (tabulate3 Lz Ly Lx f) z y x =
     (if 0 \<le> z \<and> z < int Lz \<and> 0 \<le> y \<and> y < int Ly \<and> 0 \<le> x \<and> x < int Lx
      then f (nat z) (nat y) (nat x) else False)"
  by (auto simp: vx_def tabulate3_nth)

lemma vx_range:
  "vx v z y x \<Longrightarrow> 0 \<le> z \<and> z < int (nplanes v) \<and> 0 \<le> y \<and> y < int (vrows v) \<and> 0 \<le> x \<and> x < int (vcols v)"
  by (auto simp: vx_def split: if_splits)

lemma vset_spread3: "vset (spread3 lowm cur) = flood3 (vset lowm) (vset cur)"
proof -
  have "vx (spread3 lowm cur) z y x \<longleftrightarrow>
        vx lowm z y x \<and> (vx cur z y x \<or> vx cur (z - 1) y x \<or> vx cur (z + 1) y x
           \<or> vx cur z (y - 1) x \<or> vx cur z (y + 1) x \<or> vx cur z y (x - 1) \<or> vx cur z y (x + 1))" for z y x
  proof (cases "0 \<le> z \<and> z < int (nplanes lowm) \<and> 0 \<le> y \<and> y < int (vrows lowm) \<and> 0 \<le> x \<and> x < int (vcols lowm)")
    case True
    then show ?thesis by (simp add: spread3_def vx_tabulate3)
  next
    case False
    then have "\<not> vx lowm z y x" using vx_range by blast
    with False show ?thesis by (simp add: spread3_def vx_tabulate3)
  qed
  then show ?thesis by (simp add: vset_def flood3_def)
qed

lemma vset_funpow:
  "vset ((spread3 lowm ^^ k) c) = (flood3 (vset lowm) ^^ k) (vset c)"
  by (induction k) (simp_all add: vset_spread3)

lemma flood3_inc: "S \<subseteq> Lw \<Longrightarrow> S \<subseteq> flood3 Lw S \<and> flood3 Lw S \<subseteq> Lw"
  by (auto simp: flood3_def)

lemma vset_range: "vset v \<subseteq> {0..<int (nplanes v)} \<times> {0..<int (vrows v)} \<times> {0..<int (vcols v)}"
  using vx_range by (auto simp: vset_def)

lemma vset_finite: "finite (vset v)"
  by (rule finite_subset[OF vset_range]) simp

lemma vset_card: "card (vset v) \<le> nplanes v * vrows v * vcols v"
proof -
  have "card (vset v) \<le> card ({0..<int (nplanes v)} \<times> {0..<int (vrows v)} \<times> {0..<int (vcols v)})"
    by (rule card_mono[OF _ vset_range]) simp
  then show ?thesis by (simp add: card_cartesian_product)
qed

lemma nplanes_map [simp]: "nplanes (map (map (map f)) v) = nplanes v"
  by (simp add: nplanes_def)

lemma vrows_map [simp]: "vrows (map (map (map f)) v) = vrows v"
  by (cases v) (simp_all add: vrows_def)

lemma vcols_map [simp]: "vcols (map (map (map f)) v) = vcols v"
  by (cases v) (simp_all add: vcols_def)

lemma box_nth:
  assumes "box v" "z < nplanes v" "y < vrows v"
  shows "z < length v" "y < length (v ! z)" "length (v ! z ! y) = vcols v"
proof -
  show z: "z < length v" using assms(2) by (simp add: nplanes_def)
  with assms(1) have g: "rect (v ! z)" "nrows (v ! z) = vrows v" "ncols (v ! z) = vcols v"
    by (simp_all add: box_def list_all_length)
  from g(2) assms(3) show y: "y < length (v ! z)" by (simp add: nrows_def)
  from rect_nth[OF g(1), of y] g(2,3) assms(3) show "length (v ! z ! y) = vcols v" by simp
qed

lemma vx_threshold:
  assumes "box img"
  shows "vx (map (map (map (\<lambda>v. fgt v t))) img) z y x = above3 img t z y x"
proof (cases "0 \<le> z \<and> z < int (nplanes img) \<and> 0 \<le> y \<and> y < int (vrows img) \<and> 0 \<le> x \<and> x < int (vcols img)")
  case True
  then have z: "nat z < nplanes img" and y: "nat y < vrows img" and x: "nat x < vcols img" by auto
  note b = box_nth[OF assms z y]
  with x have "nat x < length (img ! nat z ! nat y)" by simp
  with True b show ?thesis by (simp add: vx_def above3_def)
next
  case False
  then show ?thesis by (auto simp: vx_def above3_def)
qed

lemma shape_funpow_spread3:
  "nplanes ((spread3 lowm ^^ k) (tabulate3 (nplanes lowm) (vrows lowm) (vcols lowm) f)) = nplanes lowm \<and>
   vrows ((spread3 lowm ^^ k) (tabulate3 (nplanes lowm) (vrows lowm) (vcols lowm) f)) =
     (if nplanes lowm = 0 then 0 else vrows lowm) \<and>
   vcols ((spread3 lowm ^^ k) (tabulate3 (nplanes lowm) (vrows lowm) (vcols lowm) f)) =
     (if nplanes lowm = 0 \<or> vrows lowm = 0 then 0 else vcols lowm)"
  by (cases k) (simp_all add: spread3_def)

lemma connected_to_high3_vset:
  assumes sub: "vset highm \<subseteq> vset lowm"
  defines "R \<equiv> vset (connected_to_high3 lowm highm)"
  shows "vset highm \<subseteq> R" and "R \<subseteq> vset lowm" and "flood3 (vset lowm) R = R"
    and "R = (flood3 (vset lowm) ^^ (nplanes lowm * vrows lowm * vcols lowm)) (vset highm)"
proof -
  let ?init = "tabulate3 (nplanes lowm) (vrows lowm) (vcols lowm) (\<lambda>z y x.
          vx lowm (int z) (int y) (int x) \<and> vx highm (int z) (int y) (int x))"
  have "vx ?init z y x \<longleftrightarrow> vx lowm z y x \<and> vx highm z y x" for z y x
  proof (cases "0 \<le> z \<and> z < int (nplanes lowm) \<and> 0 \<le> y \<and> y < int (vrows lowm) \<and> 0 \<le> x \<and> x < int (vcols lowm)")
    case True
    then show ?thesis by (simp add: vx_tabulate3)
  next
    case False
    then have "\<not> vx lowm z y x" using vx_range by blast
    with False show ?thesis by (simp add: vx_tabulate3)
  qed
  then have "vset ?init = vset lowm \<inter> vset highm" by (auto simp: vset_def)
  with sub have init: "vset ?init = vset highm" by blast
  show R: "R = (flood3 (vset lowm) ^^ (nplanes lowm * vrows lowm * vcols lowm)) (vset highm)"
    by (simp add: R_def connected_to_high3_def vset_funpow init)
  from funpow_chain[of "vset lowm" "flood3 (vset lowm)" "vset highm", OF flood3_inc sub]
  show "vset highm \<subseteq> R" and "R \<subseteq> vset lowm" unfolding R by blast+
  show "flood3 (vset lowm) R = R" unfolding R
    by (rule funpow_fix[of "vset lowm", OF flood3_inc vset_finite sub vset_card])
qed

lemma abs_one_int: "\<bar>a\<bar> = (1::int) \<longleftrightarrow> a = 1 \<or> a = - 1"
  by (auto simp: abs_if split: if_splits)

lemma sum3_one:
  fixes A B C :: int
  assumes "0 \<le> A" "0 \<le> B" "0 \<le> C" "A + B + C = 1"
  shows "(A = 1 \<and> B = 0 \<and> C = 0) \<or> (A = 0 \<and> B = 1 \<and> C = 0) \<or> (A = 0 \<and> B = 0 \<and> C = 1)"
  using assms by presburger

lemma adjacent3_cases:
  assumes a: "\<bar>z - z'\<bar> + \<bar>y - y'\<bar> + \<bar>x - x'\<bar> = (1::int)"
  shows "(z' = z - 1 \<and> y' = y \<and> x' = x) \<or> (z' = z + 1 \<and> y' = y \<and> x' = x) \<or>
      (z' = z \<and> y' = y - 1 \<and> x' = x) \<or> (z' = z \<and> y' = y + 1 \<and> x' = x) \<or>
      (z' = z \<and> y' = y \<and> x' = x - 1) \<or> (z' = z \<and> y' = y \<and> x' = x + 1)"
proof -
  from sum3_one[OF abs_ge_zero abs_ge_zero abs_ge_zero a]
  have "(\<bar>z - z'\<bar> = 1 \<and> y - y' = 0 \<and> x - x' = 0) \<or> (z - z' = 0 \<and> \<bar>y - y'\<bar> = 1 \<and> x - x' = 0) \<or>
     (z - z' = 0 \<and> y - y' = 0 \<and> \<bar>x - x'\<bar> = 1)"
    by (simp only: abs_eq_0)
  then have "((z - z' = 1 \<or> z - z' = - 1) \<and> y - y' = 0 \<and> x - x' = 0) \<or>
     (z - z' = 0 \<and> (y - y' = 1 \<or> y - y' = - 1) \<and> x - x' = 0) \<or>
     (z - z' = 0 \<and> y - y' = 0 \<and> (x - x' = 1 \<or> x - x' = - 1))"
    by (simp only: abs_one_int)
  then show ?thesis by (elim disjE conjE) simp_all
qed

lemma flood3_adjacent:
  assumes a: "\<bar>z - z'\<bar> + \<bar>y - y'\<bar> + \<bar>x - x'\<bar> = (1::int)" and s: "(z', y', x') \<in> S" and l: "(z, y, x) \<in> Lw"
  shows "(z, y, x) \<in> flood3 Lw S"
  using adjacent3_cases[OF a] s l by (auto simp: flood3_def)

lemma hysteresis_flood3:
  assumes r: "box img" and lh: "\<And>z y x. above3 img high z y x \<Longrightarrow> above3 img low z y x"
  shows "(z, y, x) \<in> vset (connected_to_high3 (map (map (map (\<lambda>v. fgt v low))) img)
                            (map (map (map (\<lambda>v. fgt v high))) img))
         \<longleftrightarrow> hysteresis_spec3 img low high z y x"
proof -
  let ?lowm = "map (map (map (\<lambda>v. fgt v low))) img" and ?highm = "map (map (map (\<lambda>v. fgt v high))) img"
  let ?R = "vset (connected_to_high3 ?lowm ?highm)"
  have lw: "vset ?lowm = {(z, y, x). above3 img low z y x}"
    and hw: "vset ?highm = {(z, y, x). above3 img high z y x}"
    by (simp_all add: vset_def vx_threshold[OF r])
  have sub: "vset ?highm \<subseteq> vset ?lowm"
    unfolding lw hw using lh by auto
  note c = connected_to_high3_vset[OF sub]
  have "hysteresis_spec3 img low high z y x \<Longrightarrow> (z, y, x) \<in> ?R"
  proof (induction rule: hysteresis_spec3.induct)
    case (seed3 z y x)
    then show ?case using c(1) hw by auto
  next
    case (grow3 z' y' x' z y x)
    then have "(z, y, x) \<in> flood3 (vset ?lowm) ?R"
      by (intro flood3_adjacent[of z z' y y' x x']) (auto simp: lw)
    then show ?case by (simp only: c(3))
  qed
  moreover have "(flood3 (vset ?lowm) ^^ k) (vset ?highm) \<subseteq> {(z, y, x). hysteresis_spec3 img low high z y x}" for k
  proof (induction k)
    case 0
    then show ?case by (auto simp: hw intro: hysteresis_spec3.seed3)
  next
    case (Suc k)
    show ?case
    proof
      fix p assume p: "p \<in> (flood3 (vset ?lowm) ^^ Suc k) (vset ?highm)"
      obtain z y x where zyx: "p = (z, y, x)" by (cases p)
      let ?S = "(flood3 (vset ?lowm) ^^ k) (vset ?highm)"
      from p zyx have l: "above3 img low z y x"
        and n: "(z, y, x) \<in> ?S \<or> (z - 1, y, x) \<in> ?S \<or> (z + 1, y, x) \<in> ?S \<or> (z, y - 1, x) \<in> ?S \<or>
                (z, y + 1, x) \<in> ?S \<or> (z, y, x - 1) \<in> ?S \<or> (z, y, x + 1) \<in> ?S"
        by (auto simp: flood3_def lw)
      have g: "hysteresis_spec3 img low high z y x" if "(z', y', x') \<in> ?S"
        and "\<bar>z - z'\<bar> + \<bar>y - y'\<bar> + \<bar>x - x'\<bar> = 1" for z' y' x'
        using that Suc l by (intro hysteresis_spec3.grow3[of img low high z' y' x' z y x]) auto
      from n have "hysteresis_spec3 img low high z y x"
      proof (elim disjE)
        assume "(z, y, x) \<in> ?S"
        with Suc show ?thesis by auto
      qed (auto intro: g)
      with zyx show "p \<in> {(z, y, x). hysteresis_spec3 img low high z y x}" by simp
    qed
  qed
  ultimately show ?thesis unfolding c(4) by blast
qed

lemma vx_nth:
  "z < nplanes v \<Longrightarrow> y < vrows v \<Longrightarrow> x < vcols v \<Longrightarrow> vx v (int z) (int y) (int x) = v ! z ! y ! x"
  by (simp add: vx_def)

lemma vshape_0: "nplanes v = 0 \<Longrightarrow> vrows v = 0 \<and> vcols v = 0"
  by (simp add: nplanes_def vrows_def vcols_def)

lemma vshape_0': "vrows v = 0 \<Longrightarrow> vcols v = 0"
  by (cases v) (simp_all add: vrows_def vcols_def nrows_def ncols_def)

lemma shape_apply_hysteresis_threshold3:
  "nplanes (apply_hysteresis_threshold3 vb img low high) = nplanes img \<and>
   vrows (apply_hysteresis_threshold3 vb img low high) = vrows img \<and>
   vcols (apply_hysteresis_threshold3 vb img low high) = vcols img"
  using shape_funpow_spread3[where lowm = "map (map (map (\<lambda>v. fgt v (float64_scalar vb (xmin low high))))) img"]
    vshape_0[of img] vshape_0'[of img]
  by (auto simp: apply_hysteresis_threshold3_def connected_to_high3_def Let_def)

lemma float32_volume_nth:
  assumes "box a" "float32_volume a" "z < nplanes a" "y < vrows a" "x < vcols a"
  shows "float32 (a ! z ! y ! x) = Fin (a ! z ! y ! x)"
proof -
  note b = box_nth[OF assms(1,3,4)]
  with assms(5) have "x < length (a ! z ! y)" by simp
  with assms(2) b show ?thesis
    by (simp add: float32_volume_def float32_array_def list_all_length)
qed

lemma seed_mask_3d:
  assumes "box distf" and "vb \<or> float32_volume distf"
    and "z < nplanes distf" and "y < vrows distf" and "x < vcols distf"
    and t: "\<bar>t\<bar> \<le> 10 ^ 38"
  shows "seed_mask3 vb False distf t ! z ! y ! x = fgt (distf ! z ! y ! x) (float32 t) \<and>
         seed_mask3 vb True distf t ! z ! y ! x =
           hysteresis_spec3 distf
             (if vb then to_float32 (xmin (float64 (t - 1)) (Fin t)) else xmin (float64 (t - 1)) (Fin t))
             (float32 t) (int z) (int y) (int x)"
proof -
  note c = casts_small[OF t, of vb]
  let ?lo = "if vb then to_float32 (xmin (float64 (t - 1)) (Fin t)) else xmin (float64 (t - 1)) (Fin t)"
  note b = box_nth[OF assms(1,3,4)]
  with assms have a: "seed_mask3 vb False distf t ! z ! y ! x = fgt (distf ! z ! y ! x) (float32 t)"
    by (simp add: seed_mask3_def c(1))
  have ord: "above3 distf ?lo z y x" if h: "above3 distf (float32 t) z y x" for z y x
  proof -
    from h have z: "nat z < nplanes distf" and y: "nat y < vrows distf" and x: "nat x < vcols distf"
      by (auto simp: above3_def)
    have "vb \<or> float32 (distf ! nat z ! nat y ! nat x) = Fin (distf ! nat z ! nat y ! nat x)"
      using assms(2) float32_volume_nth[OF assms(1) _ z y x] by blast
    from thresholds_ordered[OF this, of "Fin t" "float64 (t - 1)"] h show ?thesis
      by (simp add: above3_def to_float32_def)
  qed
  let ?R = "apply_hysteresis_threshold3 vb distf (float64 (t - 1)) (Fin t)"
  have R: "?R = connected_to_high3 (map (map (map (\<lambda>v. fgt v ?lo))) distf)
                  (map (map (map (\<lambda>v. fgt v (float32 t)))) distf)"
    unfolding apply_hysteresis_threshold3_def Let_def c ..
  have "?R ! z ! y ! x = vx ?R (int z) (int y) (int x)"
    using assms shape_apply_hysteresis_threshold3[of vb distf "float64 (t - 1)" "Fin t"] by (simp add: vx_nth)
  also have "\<dots> = hysteresis_spec3 distf ?lo (float32 t) (int z) (int y) (int x)"
    using hysteresis_flood3[OF assms(1) ord, where z = "int z" and y = "int y" and x = "int x"]
    unfolding R by (simp add: vset_def)
  finally show ?thesis using a by (simp add: seed_mask3_def)
qed

subsection \<open>C6: the advection iteration budget\<close>




subsection \<open>Morphology and masked assignment\<close>

lemma nrows_0_ncols [simp]: "nrows g = 0 \<Longrightarrow> ncols g = 0"
  by (simp add: nrows_def ncols_def)

lemma ncols_tabulate_same [simp]: "ncols (tabulate (nrows g) (ncols g) f) = ncols g"
  by (simp add: nrows_0_ncols)

lemma rect_tabulate [simp]: "rect (tabulate Ly Lx f)"
  by (cases Ly) (simp_all add: rect_def list_all_iff tabulate_def ncols_def upt_conv_Cons del: upt_Suc)

lemma shape_dilate [simp]: "nrows (dilate bv g) = nrows g" "ncols (dilate bv g) = ncols g"
  by (simp_all add: dilate_def nrows_0_ncols)

lemma shape_erode [simp]: "nrows (erode bv g) = nrows g" "ncols (erode bv g) = ncols g"
  by (simp_all add: erode_def nrows_0_ncols)

lemma shape_funpow_dilate [simp]:
  "nrows ((dilate bv ^^ n) g) = nrows g" "ncols ((dilate bv ^^ n) g) = ncols g"
  by (induction n) simp_all

lemma shape_funpow_erode [simp]:
  "nrows ((erode bv ^^ n) g) = nrows g" "ncols ((erode bv ^^ n) g) = ncols g"
  by (induction n) simp_all










lemma rect_map [simp]: "rect (map (map f) g) = rect g"
  by (simp add: rect_def list_all_iff)


subsection \<open>C3: the foreground mask\<close>

text \<open>
  C3, as stated, fails: the comparison is made in float32, the type of the field, with
  the threshold rounded to float32. The field value \<open>13421773 / 2^27\<close> (the float32
  nearest to 0.1) is above the threshold \<open>3602879701896397 / 2^55\<close> (the Python float
  \<^verbatim>\<open>0.1\<close>), but the threshold rounds to the field value, and the pixel is not in the
  mask.
\<close>

theorem seed_mask_exact_counterexample:
  "(13421773 / 134217728 > (3602879701896397 / 36028797018963968 :: real)) \<and>
   \<not> seed_mask True False [[13421773 / 134217728]] (3602879701896397 / 36028797018963968) ! 0 ! 0 \<and>
   \<not> seed_mask False False [[13421773 / 134217728]] (3602879701896397 / 36028797018963968) ! 0 ! 0"
  by (simp add: seed_mask_def weak_scalar_def value_cast_def to_float32_def float32_tenth fgt_def)

text \<open>
  C3, amended: on a float32 field, of an image or of a volume, and for a threshold of
  magnitude at most \<open>10^38\<close>, with \<open>skel = False\<close> the foreground mask is the
  pointwise comparison of the field with the threshold rounded to float32; with
  \<open>skel = True\<close> it is the hysteresis threshold with \<open>high = dist_threshold\<close>
  rounded to float32 and \<open>low = dist_threshold - 1\<close>, computed in binary64, clipped
  to \<open>dist_threshold\<close> and, where NumPy casts scalars by value, rounded to float32: a
  pixel is in the mask exactly when it is above \<open>high\<close>, or above \<open>low\<close> and joined
  to a pixel above \<open>high\<close> by a path of neighbouring pixels above \<open>low\<close>. The mask
  has the shape of the field.
\<close>

theorem seed_mask_regimes:
  assumes "rect distf" and "float32_array distf" and "y < nrows distf" and "x < ncols distf"
    and "box vol" and "float32_volume vol" and "k < nplanes vol" and "j < vrows vol" and "i < vcols vol"
    and "\<bar>t\<bar> \<le> 10 ^ 38"
  shows "seed_mask vb False distf t = map (map (\<lambda>v. fgt v (float32 t))) distf \<and>
         seed_mask vb False distf t ! y ! x = fgt (distf ! y ! x) (float32 t) \<and>
         nrows (seed_mask vb True distf t) = nrows distf \<and>
         ncols (seed_mask vb True distf t) = ncols distf \<and>
         seed_mask vb True distf t ! y ! x =
           hysteresis_spec distf
             (if vb then to_float32 (xmin (float64 (t - 1)) (Fin t)) else xmin (float64 (t - 1)) (Fin t))
             (float32 t) (int y) (int x) \<and>
         seed_mask3 vb False vol t = map (map (map (\<lambda>v. fgt v (float32 t)))) vol \<and>
         seed_mask3 vb False vol t ! k ! j ! i = fgt (vol ! k ! j ! i) (float32 t) \<and>
         nplanes (seed_mask3 vb True vol t) = nplanes vol \<and>
         vrows (seed_mask3 vb True vol t) = vrows vol \<and>
         vcols (seed_mask3 vb True vol t) = vcols vol \<and>
         seed_mask3 vb True vol t ! k ! j ! i =
           hysteresis_spec3 vol
             (if vb then to_float32 (xmin (float64 (t - 1)) (Fin t)) else xmin (float64 (t - 1)) (Fin t))
             (float32 t) (int k) (int j) (int i)"
proof -
  note w = casts_small(1)[OF assms(10), of vb]
  have a: "seed_mask vb False distf t = map (map (\<lambda>v. fgt v (float32 t))) distf"
    by (simp add: seed_mask_def w)
  have b: "seed_mask3 vb False vol t = map (map (map (\<lambda>v. fgt v (float32 t)))) vol"
    by (simp add: seed_mask3_def w)
  have c: "nrows (seed_mask vb True distf t) = nrows distf"
    "ncols (seed_mask vb True distf t) = ncols distf"
    using shape_apply_hysteresis_threshold[of vb distf "float64 (t - 1)" "Fin t"]
    by (simp_all add: seed_mask_def)
  have d: "nplanes (seed_mask3 vb True vol t) = nplanes vol"
    "vrows (seed_mask3 vb True vol t) = vrows vol"
    "vcols (seed_mask3 vb True vol t) = vcols vol"
    using shape_apply_hysteresis_threshold3[of vb vol "float64 (t - 1)" "Fin t"]
    by (simp_all add: seed_mask3_def)
  from assms(2) have f2: "vb \<or> float32_array distf" by simp
  from assms(6) have f3: "vb \<or> float32_volume vol" by simp
  note e = seed_mask_2d[OF assms(1) f2 assms(3,4,10)]
  note f = seed_mask_3d[OF assms(5) f3 assms(7,8,9,10)]
  from a b c d e f show ?thesis by (simp only: simp_thms)
qed

theorem seed_mask_regimes_witness:
  "rect [[1, - (1 / 2), - 2 :: real]] \<and> float32_array [[1, - (1 / 2), - 2]] \<and>
   0 < nrows [[1, - (1 / 2), - 2 :: real]] \<and> 1 < ncols [[1, - (1 / 2), - 2 :: real]] \<and>
   box [[[1, - (1 / 2), - 2 :: real]]] \<and> float32_volume [[[1, - (1 / 2), - 2]]] \<and>
   0 < nplanes [[[1, - (1 / 2), - 2 :: real]]] \<and> 0 < vrows [[[1, - (1 / 2), - 2 :: real]]] \<and>
   1 < vcols [[[1, - (1 / 2), - 2 :: real]]] \<and> \<bar>0 :: real\<bar> \<le> 10 ^ 38 \<and>
   to_float32 (xmin (float64 (0 - 1)) (Fin 0)) = Fin (- 1) \<and> float32 0 = Fin 0 \<and>
   \<not> seed_mask True False [[1, - (1 / 2), - 2]] 0 ! 0 ! 1 \<and>
   seed_mask True True [[1, - (1 / 2), - 2]] 0 = [[True, True, False]] \<and>
   hysteresis_spec [[1, - (1 / 2), - 2]] (Fin (- 1)) (Fin 0) (int 0) (int 1) \<and>
   seed_mask3 True True [[[1, - (1 / 2), - 2]]] 0 = [[[True, True, False]]] \<and>
   hysteresis_spec3 [[[1, - (1 / 2), - 2]]] (Fin (- 1)) (Fin 0) (int 0) (int 0) (int 1)"
proof -
  let ?g = "[[1, - (1 / 2), - 2 :: real]]"
  have r: "rect ?g" by (simp add: rect_def ncols_def)
  have fa: "float32_array ?g"
    by (simp add: float32_array_def float32_1 float32_minus_half float32_minus_2)
  have y: "0 < nrows ?g" by (simp add: nrows_def)
  have x: "1 < ncols ?g" by (simp add: ncols_def)
  have bx: "box [?g]" by (simp add: box_def rect_def ncols_def nrows_def vrows_def vcols_def)
  have fv: "float32_volume [?g]" using fa by (simp add: float32_volume_def)
  have k: "0 < nplanes [?g]" by (simp add: nplanes_def)
  have j: "0 < vrows [?g]" by (simp add: vrows_def nrows_def)
  have i: "1 < vcols [?g]" by (simp add: vcols_def ncols_def)
  have t0: "\<bar>0 :: real\<bar> \<le> 10 ^ 38" by simp
  have lo: "to_float32 (xmin (float64 (0 - 1)) (Fin 0)) = Fin (- 1)"
    by (simp add: xmin_def xle_def float64_minus_1 to_float32_def float32_minus_1)
  have hi: "float32 0 = Fin 0" by simp
  have m2: "seed_mask True True ?g 0 = connected_to_high [[True, True, False]] [[True, False, False]]"
    by (simp add: seed_mask_def apply_hysteresis_threshold_def Let_def weak_scalar_def
        float64_scalar_def value_cast_def xmin_def xle_def float64_minus_1 float32_minus_1 fgt_def)
  have c2: "connected_to_high [[True, True, False]] [[True, False, False]] = [[True, True, False]]"
    by code_simp
  have m3: "seed_mask3 True True [?g] 0 =
      connected_to_high3 [[[True, True, False]]] [[[True, False, False]]]"
    by (simp add: seed_mask3_def apply_hysteresis_threshold3_def Let_def weak_scalar_def
        float64_scalar_def value_cast_def xmin_def xle_def float64_minus_1 float32_minus_1 fgt_def)
  have c3: "connected_to_high3 [[[True, True, False]]] [[[True, False, False]]]
      = [[[True, True, False]]]"
    by code_simp
  note t = seed_mask_regimes[OF r fa y x bx fv k j i t0, of True]
  from t have a: "seed_mask True False ?g 0 ! 0 ! 1 = fgt (?g ! 0 ! 1) (float32 0)"
    by blast
  from t have b: "seed_mask True True ?g 0 ! 0 ! 1 =
      hysteresis_spec ?g (if True then to_float32 (xmin (float64 (0 - 1)) (Fin 0))
                          else xmin (float64 (0 - 1)) (Fin 0)) (float32 0) (int 0) (int 1)"
    by blast
  from t have c: "seed_mask3 True True [?g] 0 ! 0 ! 0 ! 1 =
      hysteresis_spec3 [?g] (if True then to_float32 (xmin (float64 (0 - 1)) (Fin 0))
                             else xmin (float64 (0 - 1)) (Fin 0)) (float32 0) (int 0) (int 0) (int 1)"
    by blast
  have na: "\<not> seed_mask True False ?g 0 ! 0 ! 1"
    unfolding a by (simp add: fgt_def)
  from b have h2: "hysteresis_spec ?g (Fin (- 1)) (Fin 0) (int 0) (int 1)"
    unfolding if_True lo hi m2 c2 by simp
  from c have h3: "hysteresis_spec3 [?g] (Fin (- 1)) (Fin 0) (int 0) (int 0) (int 1)"
    unfolding if_True lo hi m3 c3 by simp
  from r fa y x bx fv k j i t0 lo hi na m2[unfolded c2] h2 m3[unfolded c3] h3 show ?thesis by blast
qed

subsection \<open>C5: the stencil of the divergence\<close>

text \<open>
  C5 asks that every tap of the 5-point stencil address an element of a buffer padded
  by at least 2 pixels, with no negative flat index. In the code \<open>pad\<close> is 1 and the
  flat indices use the stride \<open>Lx\<close> of the unpadded image. On a 2 by 2 foreground, the
  taps of pixel \<open>(0, 1)\<close> are \<open>5, 3, -1, -3\<close> into \<open>Ty\<close> and \<open>3, 2, 0, -1\<close> into
  \<open>Tx\<close>: two are negative and wrap to the end of the buffer, and the taps \<open>X+1\<close>,
  \<open>X+2\<close> are the pixels \<open>(1, 0)\<close> and \<open>(1, 1)\<close> of the next row. With \<open>Tx = 1\<close> at
  \<open>(1, 0)\<close> only, the divergence at \<open>(0, 1)\<close> comes out as 8, and as 1 at \<open>(0, 0)\<close>.
\<close>

theorem divergence_stencil_failing_input:
  "pad = 1 \<and>
   stencil_taps 2 (0, 1) = [5, 3, - 1, - 3, 3, 2, 0, - 1] \<and>
   np_index ((2 + 2 * pad) * (2 + 2 * pad)) (- 1) = Inr 15 \<and>
   divergence [[True, True], [True, True]] [[[0, 0], [0, 0]], [[0, 0], [1, 0]]] = Inr [1, 8, 0, - 8]"
proof -
  have a: "pad = 1" by (simp add: pad_def)
  have b: "stencil_taps 2 (0, 1) = [5, 3, - 1, - 3, 3, 2, 0, - 1]" by (simp add: stencil_taps_def)
  have c: "np_index ((2 + 2 * pad) * (2 + 2 * pad)) (- 1) = Inr 15" by (simp add: np_index_def pad_def)
  have d: "divergence [[True, True], [True, True]] [[[0, 0], [0, 0]], [[0, 0], [1, 0]]] = Inr [1, 8, 0, - 8]"
    by code_simp
  from a b c d show ?thesis by blast
qed

subsection \<open>Renumbering\<close>

lemma dense_dict_step:
  assumes "dense_dict d n" and "d v = None"
  shows "dense_dict (d(v \<mapsto> n)) (n + 1)"
proof -
  from assms have v0: "v \<noteq> 0" by (auto simp: dense_dict_def)
  have surj: "\<exists>u. (d(v \<mapsto> n)) u = Some k" if "1 \<le> k" "k < n + 1" for k
  proof (cases "k = n")
    case True
    then show ?thesis by auto
  next
    case False
    with that assms(1) obtain u where u: "d u = Some k" by (auto simp: dense_dict_def)
    with assms(2) have "u \<noteq> v" by auto
    with u show ?thesis by auto
  qed
  from assms(1) v0 surj show ?thesis
    unfolding dense_dict_def by (auto simp: less_imp_le)
qed

lemma remap_dict_dense:
  "dense_dict d n \<Longrightarrow>
     \<exists>n'. dense_dict (remap_dict d n vs) n' \<and> dom (remap_dict d n vs) = dom d \<union> set vs"
proof (induction vs arbitrary: d n)
  case Nil
  then show ?case by auto
next
  case (Cons v vs)
  show ?case
  proof (cases "d v")
    case None
    from Cons.IH[OF dense_dict_step[OF Cons.prems None]] obtain n'
      where n': "dense_dict (remap_dict (d(v \<mapsto> n)) (n + 1) vs) n'"
        and dm: "dom (remap_dict (d(v \<mapsto> n)) (n + 1) vs) = dom (d(v \<mapsto> n)) \<union> set vs"
      by blast
    have eq: "remap_dict d n (v # vs) = remap_dict (d(v \<mapsto> n)) (n + 1) vs"
      using None by simp
    have "dom (d(v \<mapsto> n)) \<union> set vs = dom d \<union> set (v # vs)" by auto
    with n' dm show ?thesis unfolding eq by metis
  next
    case (Some k)
    from Cons.IH[OF Cons.prems] obtain n'
      where n': "dense_dict (remap_dict d n vs) n'"
        and dm: "dom (remap_dict d n vs) = dom d \<union> set vs"
      by blast
    have eq: "remap_dict d n (v # vs) = remap_dict d n vs"
      using Some by simp
    have "dom d \<union> set vs = dom d \<union> set (v # vs)" using Some by auto
    with n' dm show ?thesis unfolding eq by metis
  qed
qed

lemma set_flatten: "set (flatten a) = set_ndarray a"
  by (cases a) auto

lemma renumber_dense:
  "\<exists>n. 1 \<le> n \<and> set_ndarray (renumber a) - {0} = {1..<n}"
proof -
  let ?d = "remap_dict [0 \<mapsto> 0] 1 (flatten a)"
  have "dense_dict [0 \<mapsto> 0] 1" by (auto simp: dense_dict_def)
  from remap_dict_dense[OF this, of "flatten a"] obtain n
    where dn: "dense_dict ?d n" and dom: "dom ?d = {0} \<union> set_ndarray a"
    by (auto simp: set_flatten)
  have img: "set_ndarray (renumber a) = (\<lambda>v. case ?d v of Some k \<Rightarrow> k | None \<Rightarrow> v) ` set_ndarray a"
    by (simp add: renumber_def ndarray.set_map)
  have "set_ndarray (renumber a) - {0} = {1..<n}"
  proof (intro equalityI subsetI)
    fix k assume "k \<in> set_ndarray (renumber a) - {0}"
    then obtain v where v: "v \<in> set_ndarray a" and k: "k = (case ?d v of Some k \<Rightarrow> k | None \<Rightarrow> v)"
      and k0: "k \<noteq> 0" unfolding img by auto
    from v dom obtain j where j: "?d v = Some j" by auto
    with dn k k0 show "k \<in> {1..<n}" by (auto simp: dense_dict_def) force
  next
    fix k assume k: "k \<in> {1..<n}"
    with dn obtain v where v: "?d v = Some k" by (auto simp: dense_dict_def)
    with dn k have "v \<noteq> 0" by (auto simp: dense_dict_def)
    with v dom have "v \<in> set_ndarray a" by auto
    with v k show "k \<in> set_ndarray (renumber a) - {0}" unfolding img by force
  qed
  with dn show ?thesis by (auto simp: dense_dict_def)
qed

lemma sanitize_renumbered:
  "fst (sanitize ext lab k st) = Inr L \<Longrightarrow> \<exists>m. L = renumber m"
  by (auto simp: sanitize_def split: sum.splits)

lemma compute_masks_renumbered:
  assumes "fst (compute_masks self ext dP distf bd p niter dist_threshold diam_threshold
      flow_threshold interp cluster do_3D min_size resize skel calc_trace st) = Inr (L, q, tr)"
  shows "\<exists>m. L = renumber m"
proof -
  obtain r st1 where R: "reconstruct self ext dP distf bd p niter dist_threshold diam_threshold
      flow_threshold interp cluster do_3D resize skel calc_trace st = (r, st1)"
    by (cases "reconstruct self ext dP distf bd p niter dist_threshold diam_threshold
      flow_threshold interp cluster do_3D resize skel calc_trace st")
  show ?thesis
  proof (cases r)
    case (Inl e)
    with assms R show ?thesis by (simp add: compute_masks_def)
  next
    case (Inr t)
    obtain lab q' tr' where t: "t = (lab, q', tr')" by (cases t)
    obtain s st2 where S: "sanitize ext lab min_size st1 = (s, st2)"
      by (cases "sanitize ext lab min_size st1")
    from assms R Inr t S have "s = Inr L"
      by (cases s) (simp_all add: compute_masks_def)
    with S sanitize_renumbered[of ext lab min_size st1 L] show ?thesis by simp
  qed
qed

subsection \<open>C2: the labels returned are dense\<close>

text \<open>
  C2: in every label array \<open>L\<close> that \<^verbatim>\<open>_compute_masks\<close> returns, 0 is the only
  non-positive value, the positive labels are exactly \<open>1..K\<close> for \<open>K\<close> the number of
  distinct positive labels, and no label exceeds \<open>K\<close>.
\<close>

theorem compute_masks_dense_labels:
  assumes "fst (compute_masks self ext dP distf bd p niter dist_threshold diam_threshold
      flow_threshold interp cluster do_3D min_size resize skel calc_trace st) = Inr (L, q, tr)"
  shows "(\<forall>v \<in> set_ndarray L. v \<le> 0 \<longrightarrow> v = 0) \<and>
         {v \<in> set_ndarray L. 0 < v} = {1..int (card {v \<in> set_ndarray L. 0 < v})} \<and>
         (\<forall>v \<in> set_ndarray L. v \<le> int (card {v \<in> set_ndarray L. 0 < v}))"
proof -
  from compute_masks_renumbered[OF assms] obtain m where L: "L = renumber m" by blast
  from renumber_dense[of m] obtain n where n: "1 \<le> n" and d: "set_ndarray L - {0} = {1..<n}"
    unfolding L by blast
  have mem: "v \<in> set_ndarray L \<and> v \<noteq> 0 \<longleftrightarrow> 1 \<le> v \<and> v < n" for v
    using d by (simp add: set_eq_iff)
  have pos: "{v \<in> set_ndarray L. 0 < v} = {1..n - 1}"
  proof (rule set_eqI)
    fix v show "v \<in> {v \<in> set_ndarray L. 0 < v} \<longleftrightarrow> v \<in> {1..n - 1}"
      using mem[of v] by (cases "v = 0") auto
  qed
  have card: "int (card {v \<in> set_ndarray L. 0 < v}) = n - 1"
    unfolding pos using n by simp
  have a: "\<forall>v \<in> set_ndarray L. v \<le> 0 \<longrightarrow> v = 0"
    using mem by (metis not_one_le_zero order_trans)
  have c: "\<forall>v \<in> set_ndarray L. v \<le> n - 1"
  proof
    fix v assume "v \<in> set_ndarray L"
    with mem[of v] n show "v \<le> n - 1" by (cases "v = 0") auto
  qed
  from a pos c show ?thesis unfolding card by blast
qed

theorem compute_masks_dense_labels_witness:
  "fst (compute_masks \<lparr>nclasses = 3, SKLEARN_ENABLED = True\<rparr> example_ext 0
      [[1, 0], [1, 1]] [[0, 0], [0, 0]] None 200 0 12 (2 / 5) True False False 15 None False False
      example_state) = Inr (Arr2 [[1, 0], [2, 1]], [[[1 / 5, 0], [0, 1 / 5]], [[0, 0], [1 / 5, 0]]], []) \<and>
   {v \<in> set_ndarray (Arr2 [[1, 0], [2, 1]]). 0 < v} =
     {1..int (card {v \<in> set_ndarray (Arr2 [[1, 0], [2, 1 :: int]]). 0 < v})}"
proof -
  have e: "fst (compute_masks \<lparr>nclasses = 3, SKLEARN_ENABLED = True\<rparr> example_ext 0
      [[1, 0], [1, 1]] [[0, 0], [0, 0]] None 200 0 12 (2 / 5) True False False 15 None False False
      example_state) = Inr (Arr2 [[1, 0], [2, 1]], [[[1 / 5, 0], [0, 1 / 5]], [[0, 0], [1 / 5, 0]]], [])"
    by (simp add: compute_masks_def reconstruct_def seed_mask_def weak_scalar_def value_cast_def
        to_float32_def fgt_def np_any_def orig_branch_def example_ext_def example_state_def resize_step_def
        sanitize_def renumber_def logc_def deref_def mul_mask_def Let_def)
  from compute_masks_dense_labels[OF e] e show ?thesis by blast
qed

subsection \<open>C1: no foreground\<close>

text \<open>Without a foreground pixel nothing is invoked and the state is untouched: the
  result is \<^verbatim>\<open>np.zeros(resize)\<close> with the placeholder positions and an empty trace.\<close>

lemma reconstruct_no_foreground:
  assumes "\<not> np_any (seed_mask (value_based_casting ext) skel distf dist_threshold)"
  shows "reconstruct self ext dP distf bd p niter dist_threshold diam_threshold flow_threshold
           interp cluster do_3D resize skel calc_trace st
         = (Inr (np_zeros resize, [[[0]], [[0]]], []), st)"
  using assms by (simp add: reconstruct_def)

text \<open>
  C1 asks for an all-zero label grid of the output's shape whenever the foreground is
  empty. \<^verbatim>\<open>_run_cp\<close> passes \<^verbatim>\<open>resize=None\<close> when \<^verbatim>\<open>do_3D\<close> or \<^verbatim>\<open>resample\<close> is set; on a
  1 by 1 field with no pixel above the threshold the array built is then
  \<^verbatim>\<open>np.zeros(None)\<close>, of no dimension, and that is what the cleanup receives.
\<close>

theorem compute_masks_empty_resize_None:
  "\<not> np_any (seed_mask (value_based_casting ext) False [[0]] 0) \<and>
   reconstruct self ext dP [[0]] bd p niter 0 diam_threshold flow_threshold
      interp cluster do_3D None False calc_trace st = (Inr (Arr0 0, [[[0]], [[0]]], []), st) \<and>
   fst (compute_masks self ext dP [[0]] bd p niter 0 diam_threshold flow_threshold
      interp cluster do_3D min_size None False calc_trace st)
     = (case fill_holes_and_remove_small_masks ext (Arr0 0) min_size of
          Inl e \<Rightarrow> Inl e | Inr m \<Rightarrow> Inr (renumber m, [[[0]], [[0]]], []))"
proof -
  have a: "\<not> np_any (seed_mask (value_based_casting ext) False [[0]] 0)"
    by (simp add: seed_mask_def weak_scalar_def value_cast_def to_float32_def fgt_def np_any_def)
  have b: "reconstruct self ext dP [[0]] bd p niter 0 diam_threshold flow_threshold
      interp cluster do_3D None False calc_trace st = (Inr (Arr0 0, [[[0]], [[0]]], []), st)"
    using a by (simp add: reconstruct_def np_zeros_def)
  have c: "fst (compute_masks self ext dP [[0]] bd p niter 0 diam_threshold flow_threshold
      interp cluster do_3D min_size None False calc_trace st)
     = (case fill_holes_and_remove_small_masks ext (Arr0 0) min_size of
          Inl e \<Rightarrow> Inl e | Inr m \<Rightarrow> Inr (renumber m, [[[0]], [[0]]], []))"
    unfolding compute_masks_def b by (simp add: sanitize_def split: sum.splits)
  from a b c show ?thesis by blast
qed

subsection \<open>A run of the skeleton regime\<close>

text \<open>Lines 690-739, with the intermediate values named: the branch comes down to the
  label assignment of lines 739-770, after four collaborators have been called.\<close>

lemma skel_branch_run:
  assumes sp: "skel_params self ext distf msk skel = (d, eps, c)"
    and dv: "divergence msk (normalize_field ext (mul_mask (deref st dP) msk)) = Inr dv"
    and sh: "set_shape (nrows msk) (ncols msk) (normalize99 ext dv) = Inr dvg"
    and ff: "follow_flows ext (mul_grid (normalize_field ext (mul_mask (deref st dP) msk)) dvg)
               msk None interp skel calc_trace = (p, inds, tr)"
  shows "\<exists>st6. calls st6 = calls st @ [c, NormalizeField, Normalize99, FollowFlows] \<and>
           skel_branch self ext dP distf bd msk diam_threshold interp cluster skel calc_trace st
           = (case skel_assign self ext distf bd p inds (force_cluster d diam_threshold cluster) eps st6 of
                (Inl e, st7) \<Rightarrow> (Inl e, st7)
              | (Inr lab, st7) \<Rightarrow> (Inr (lab, p, tr), st7))"
proof -
  let ?st1 = "logc c st"
  have d1: "deref ?st1 dP = deref st dP" by (simp add: deref_def logc_def)
  obtain dP1 st2 where a1: "alloc (deref st dP) ?st1 = (dP1, st2)"
    by (cases "alloc (deref st dP) ?st1")
  let ?st3 = "imul_mask dP1 msk st2"
  have d3: "deref ?st3 dP1 = mul_mask (deref st dP) msk"
    using a1 by (auto simp: alloc_def imul_mask_def deref_def)
  let ?nf = "normalize_field ext (mul_mask (deref st dP) msk)"
  obtain dP2 st4 where a2: "alloc ?nf (logc NormalizeField ?st3) = (dP2, st4)"
    by (cases "alloc ?nf (logc NormalizeField ?st3)")
  have d4: "deref st4 dP2 = ?nf"
    using a2 by (auto simp: alloc_def deref_def)
  let ?st5 = "imul_grid dP2 dvg (logc Normalize99 st4)"
  have d5: "deref ?st5 dP2 = mul_grid ?nf dvg"
    using a2 by (auto simp: alloc_def imul_grid_def deref_def logc_def)
  let ?st6 = "logc FollowFlows ?st5"
  have c6: "calls ?st6 = calls st @ [c, NormalizeField, Normalize99, FollowFlows]"
    using a1 a2 by (auto simp: alloc_def imul_grid_def imul_mask_def logc_def)
  have "skel_branch self ext dP distf bd msk diam_threshold interp cluster skel calc_trace st
           = (case skel_assign self ext distf bd p inds (force_cluster d diam_threshold cluster) eps ?st6 of
                (Inl e, st7) \<Rightarrow> (Inl e, st7)
              | (Inr lab, st7) \<Rightarrow> (Inr (lab, p, tr), st7))"
    unfolding skel_branch_def Let_def sp prod.case d1 a1 d3 a2 d4 dv sum.case sh d5 ff ..
  with c6 show ?thesis by blast
qed

text \<open>The run on the instance with clustering.\<close>

lemma cluster_example:
  defines "T \<equiv> [[True, True, True], [True, True, True], [True, True, True]]"
    and "Z \<equiv> [[0, 0, 0], [0, 0, 0], [0, 0, 0 :: real]]"
    and "P \<equiv> [[0, 0, 0], [0, 1, 0], [0, 0, 0 :: real]]"
    and "I \<equiv> ([(0, 0), (0, 1), (0, 2), (1, 0), (1, 1), (1, 2), (2, 0), (2, 1), (2, 2)] :: (nat \<times> nat) list)"
    and "N \<equiv> [(0, 0), (0, 0), (0, 0), (0, 0), (1, 1), (0, 0), (0, 0), (0, 0), (0, 0 :: real)]"
  shows "skel_params \<lparr>nclasses = 4, SKLEARN_ENABLED = True\<rparr> cluster_ext distf T True
           = (3, 1 + 1 / 3, DistToDiam)"
    and "divergence T (normalize_field cluster_ext (mul_mask (deref zero_state 0) T))
           = Inr [0, 0, 0, 0, 0, 0, 0, 0, 0]"
    and "set_shape (nrows T) (ncols T) (normalize99 cluster_ext [0, 0, 0, 0, 0, 0, 0, 0, 0]) = Inr Z"
    and "follow_flows cluster_ext (mul_grid (normalize_field cluster_ext (mul_mask (deref zero_state 0) T)) Z)
           T None interp True False = ([P, P], I, [])"
    and "landing [P, P] I = Inr N"
    and "DBSCAN cluster_ext (1 + 1 / 3) 3 N = [0, 0, 0, 0, - 1, 0, 0, 0, 0]"
    and "np_scatter (tabulate (nrows ([P, P] ! 0)) (ncols ([P, P] ! 0)) (\<lambda>y x. 0)) (ints I)
           (map (\<lambda>l. l + 1) [0, 0, 0, 0, - 1, 0, 0, 0, 0 :: int])
           = Inr [[1, 1, 1], [1, 0, 1], [1, 1, 1]]"
proof -
  show "skel_params \<lparr>nclasses = 4, SKLEARN_ENABLED = True\<rparr> cluster_ext distf T True
           = (3, 1 + 1 / 3, DistToDiam)"
    by (simp add: skel_params_def cluster_ext_def)
  have m: "normalize_field cluster_ext (mul_mask (deref zero_state 0) T) = [Z, Z]"
    by (simp add: cluster_ext_def zero_state_def deref_def mul_mask_def T_def Z_def)
  have "divergence T [Z, Z] = Inr [0, 0, 0, 0, 0, 0, 0, 0, 0]"
    unfolding T_def Z_def by code_simp
  then show "divergence T (normalize_field cluster_ext (mul_mask (deref zero_state 0) T))
           = Inr [0, 0, 0, 0, 0, 0, 0, 0, 0]"
    unfolding m .
  have n99: "normalize99 cluster_ext dv = dv" for dv by (simp add: cluster_ext_def)
  show "set_shape (nrows T) (ncols T) (normalize99 cluster_ext [0, 0, 0, 0, 0, 0, 0, 0, 0]) = Inr Z"
    unfolding n99 T_def Z_def by code_simp
  have ff: "follow_flows cluster_ext v T n i s c = ([P, P], I, [])" for v n i s c
  proof -
    have "tabulate (nrows T) (ncols T) (\<lambda>y x. if y = 1 \<and> x = 1 then 1 else (0 :: real)) = P"
      unfolding T_def P_def by code_simp
    moreover have "np_nonzero T = I" unfolding T_def I_def by code_simp
    ultimately show ?thesis by (simp add: cluster_ext_def)
  qed
  show "follow_flows cluster_ext (mul_grid (normalize_field cluster_ext (mul_mask (deref zero_state 0) T)) Z)
           T None interp True False = ([P, P], I, [])"
    by (rule ff)
  show "landing [P, P] I = Inr N"
    unfolding P_def I_def N_def by code_simp
  show "DBSCAN cluster_ext (1 + 1 / 3) 3 N = [0, 0, 0, 0, - 1, 0, 0, 0, 0]"
    by (simp add: cluster_ext_def N_def power2_eq_square)
  show "np_scatter (tabulate (nrows ([P, P] ! 0)) (ncols ([P, P] ! 0)) (\<lambda>y x. 0)) (ints I)
           (map (\<lambda>l. l + 1) [0, 0, 0, 0, - 1, 0, 0, 0, 0 :: int])
           = Inr [[1, 1, 1], [1, 0, 1], [1, 1, 1]]"
    unfolding P_def I_def by code_simp
qed

subsection \<open>C4: clustering forced for small objects\<close>

text \<open>
  C4: in the skeleton regime, when the mean diameter \<open>d\<close> (lines 691-698) is at or
  below \<open>diam_threshold\<close>, then whatever \<open>cluster\<close> flag the caller passed, and
  scikit-learn being there, the labels the branch returns are those of DBSCAN with
  \<open>min_samples = 3\<close> and \<open>eps = 1 + 1/3\<close> for a 4-class model, \<open>sqrt 2\<close> otherwise,
  run on the landing points of the flow and written, shifted by one, at the pixels of
  \<open>inds\<close> into an array of zeros. The collaborators called are the diameter estimate,
  \<^verbatim>\<open>normalize_field\<close>, \<^verbatim>\<open>normalize99\<close>, \<^verbatim>\<open>follow_flows\<close> and DBSCAN, in this order, and no
  connected-component labelling. The hypotheses name the intermediate values of lines
  714-739.
\<close>

theorem skel_cluster_forced:
  assumes sp: "skel_params self ext distf msk skel = (d, eps, c)"
    and small: "d \<le> diam_threshold"
    and sk: "SKLEARN_ENABLED self"
    and dv: "divergence msk (normalize_field ext (mul_mask (deref st dP) msk)) = Inr dv"
    and sh: "set_shape (nrows msk) (ncols msk) (normalize99 ext dv) = Inr dvg"
    and ff: "follow_flows ext (mul_grid (normalize_field ext (mul_mask (deref st dP) msk)) dvg)
               msk None interp skel calc_trace = (p, inds, tr)"
    and la: "landing p inds = Inr newinds"
  shows "d = (if nclasses self = 4 then dist_to_diam ext (map abs (boolean_index distf msk))
              else fst (diameters ext msk skel)) \<and>
         eps = (if nclasses self = 4 then 1 + 1 / 3 else sqrt 2) \<and>
         fst (skel_branch self ext dP distf bd msk diam_threshold interp cluster skel calc_trace st)
           = (case np_scatter (tabulate (nrows (p ! 0)) (ncols (p ! 0)) (\<lambda>y x. 0)) (ints inds)
                     (map (\<lambda>l. l + 1) (DBSCAN ext eps 3 newinds)) of
                Inl e \<Rightarrow> Inl e
              | Inr lab \<Rightarrow> Inr (lab, p, tr)) \<and>
         calls (snd (skel_branch self ext dP distf bd msk diam_threshold interp cluster skel
                   calc_trace st))
           = calls st @ [c, NormalizeField, Normalize99, FollowFlows, Dbscan eps 3]"
proof -
  have a: "d = (if nclasses self = 4 then dist_to_diam ext (map abs (boolean_index distf msk))
              else fst (diameters ext msk skel))"
    and b: "eps = (if nclasses self = 4 then 1 + 1 / 3 else sqrt 2)"
    using sp by (auto simp: skel_params_def split: if_splits)
  have f: "force_cluster d diam_threshold cluster = True"
    using small by (simp add: force_cluster_def)
  from skel_branch_run[OF sp dv sh ff, of bd diam_threshold cluster] obtain st6
    where c6: "calls st6 = calls st @ [c, NormalizeField, Normalize99, FollowFlows]"
      and run: "skel_branch self ext dP distf bd msk diam_threshold interp cluster skel calc_trace st
           = (case skel_assign self ext distf bd p inds True eps st6 of
                (Inl e, st7) \<Rightarrow> (Inl e, st7)
              | (Inr lab, st7) \<Rightarrow> (Inr (lab, p, tr), st7))"
    unfolding f by blast
  let ?sc = "np_scatter (tabulate (nrows (p ! 0)) (ncols (p ! 0)) (\<lambda>y x. 0)) (ints inds)
                     (map (\<lambda>l. l + 1) (DBSCAN ext eps 3 newinds))"
  have sa: "skel_assign self ext distf bd p inds True eps st6 = (?sc, logc (Dbscan eps 3) st6)"
    using sk la by (simp add: skel_assign_def cluster_labels_def Let_def)
  have r: "fst (skel_branch self ext dP distf bd msk diam_threshold interp cluster skel calc_trace st)
           = (case ?sc of Inl e \<Rightarrow> Inl e | Inr lab \<Rightarrow> Inr (lab, p, tr))"
    unfolding run sa by (cases ?sc) simp_all
  have l: "calls (snd (skel_branch self ext dP distf bd msk diam_threshold interp cluster skel
                   calc_trace st))
           = calls st @ [c, NormalizeField, Normalize99, FollowFlows, Dbscan eps 3]"
    unfolding run sa using c6 by (cases ?sc) (simp_all add: logc_def)
  from a b r l show ?thesis by blast
qed

theorem skel_cluster_forced_witness:
  "skel_params \<lparr>nclasses = 4, SKLEARN_ENABLED = True\<rparr> cluster_ext
       [[1, 1, 1], [1, 1, 1], [1, 1, 1]] [[True, True, True], [True, True, True], [True, True, True]] True
     = (3, 1 + 1 / 3, DistToDiam) \<and> (3 :: real) \<le> 12 \<and>
   SKLEARN_ENABLED \<lparr>nclasses = 4, SKLEARN_ENABLED = True\<rparr> \<and>
   landing [[[0, 0, 0], [0, 1, 0], [0, 0, 0]], [[0, 0, 0], [0, 1, 0], [0, 0, 0]]]
       [(0, 0), (0, 1), (0, 2), (1, 0), (1, 1), (1, 2), (2, 0), (2, 1), (2, 2)]
     = Inr [(0, 0), (0, 0), (0, 0), (0, 0), (1, 1), (0, 0), (0, 0), (0, 0), (0, 0)] \<and>
   fst (skel_branch \<lparr>nclasses = 4, SKLEARN_ENABLED = True\<rparr> cluster_ext 0
          [[1, 1, 1], [1, 1, 1], [1, 1, 1]] [[0, 0, 0], [0, 0, 0], [0, 0, 0]]
          [[True, True, True], [True, True, True], [True, True, True]] 12 True False True False
          zero_state)
     = Inr ([[1, 1, 1], [1, 0, 1], [1, 1, 1]],
            [[[0, 0, 0], [0, 1, 0], [0, 0, 0]], [[0, 0, 0], [0, 1, 0], [0, 0, 0]]], []) \<and>
   calls (snd (skel_branch \<lparr>nclasses = 4, SKLEARN_ENABLED = True\<rparr> cluster_ext 0
          [[1, 1, 1], [1, 1, 1], [1, 1, 1]] [[0, 0, 0], [0, 0, 0], [0, 0, 0]]
          [[True, True, True], [True, True, True], [True, True, True]] 12 True False True False
          zero_state))
     = [DistToDiam, NormalizeField, Normalize99, FollowFlows, Dbscan (1 + 1 / 3) 3]"
proof -
  note e = cluster_example(1)[where distf = "[[1, 1, 1], [1, 1, 1], [1, 1, 1]]"]
    cluster_example(2,3) cluster_example(4)[where interp = True] cluster_example(5,6,7)
  have small: "(3 :: real) \<le> 12" by simp
  have sk: "SKLEARN_ENABLED \<lparr>nclasses = 4, SKLEARN_ENABLED = True\<rparr>" by simp
  note t = skel_cluster_forced[OF e(1) small sk e(2) e(3) e(4) e(5),
      where bd = "[[0, 0, 0], [0, 0, 0], [0, 0, 0]]" and cluster = False]
  from t have r: "fst (skel_branch \<lparr>nclasses = 4, SKLEARN_ENABLED = True\<rparr> cluster_ext 0
          [[1, 1, 1], [1, 1, 1], [1, 1, 1]] [[0, 0, 0], [0, 0, 0], [0, 0, 0]]
          [[True, True, True], [True, True, True], [True, True, True]] 12 True False True False
          zero_state)
     = Inr ([[1, 1, 1], [1, 0, 1], [1, 1, 1]],
            [[[0, 0, 0], [0, 1, 0], [0, 0, 0]], [[0, 0, 0], [0, 1, 0], [0, 0, 0]]], [])"
    unfolding e(6) e(7) by simp
  from t have l: "calls (snd (skel_branch \<lparr>nclasses = 4, SKLEARN_ENABLED = True\<rparr> cluster_ext 0
          [[1, 1, 1], [1, 1, 1], [1, 1, 1]] [[0, 0, 0], [0, 0, 0], [0, 0, 0]]
          [[True, True, True], [True, True, True], [True, True, True]] 12 True False True False
          zero_state))
     = [DistToDiam, NormalizeField, Normalize99, FollowFlows, Dbscan (1 + 1 / 3) 3]"
    by (simp add: zero_state_def)
  from e(1) small sk e(5) r l show ?thesis by blast
qed

subsection \<open>C7: border correction of the skeleton\<close>



subsection \<open>C8: the caller's vector field is not written\<close>

lemma frame_refl [simp]: "frame st st"
  by (simp add: frame_def)

lemma frame_trans: "frame a b \<Longrightarrow> frame b c \<Longrightarrow> frame a c"
  by (auto simp: frame_def)

lemma frame_logc: "frame st0 st \<Longrightarrow> frame st0 (logc c st)"
  by (simp add: frame_def logc_def)

lemma frame_alloc:
  "frame st0 st \<Longrightarrow> alloc v st = (r, st') \<Longrightarrow> frame st0 st' \<and> nxt st0 \<le> r"
  by (auto simp: frame_def alloc_def)

lemma frame_imul_mask: "frame st0 st \<Longrightarrow> nxt st0 \<le> r \<Longrightarrow> frame st0 (imul_mask r m st)"
  by (auto simp: frame_def imul_mask_def)

lemma frame_imul_grid: "frame st0 st \<Longrightarrow> nxt st0 \<le> r \<Longrightarrow> frame st0 (imul_grid r g st)"
  by (auto simp: frame_def imul_grid_def)

lemma frame_skel_assign:
  "frame st0 st \<Longrightarrow> frame st0 (snd (skel_assign self ext distf bd p inds cluster eps st))"
  by (auto simp: skel_assign_def Let_def frame_logc split: sum.splits)

lemma frame_skel_branch:
  "frame st (snd (skel_branch self ext dP distf bd msk diam_threshold interp cluster skel calc_trace st))"
proof -
  obtain d eps c where sp: "skel_params self ext distf msk skel = (d, eps, c)"
    by (cases "skel_params self ext distf msk skel")
  let ?st1 = "logc c st"
  obtain dP1 st2 where a1: "alloc (deref ?st1 dP) ?st1 = (dP1, st2)"
    by (cases "alloc (deref ?st1 dP) ?st1")
  let ?st3 = "imul_mask dP1 msk st2"
  obtain dP2 st4 where a2:
    "alloc (normalize_field ext (deref ?st3 dP1)) (logc NormalizeField ?st3) = (dP2, st4)"
    by (cases "alloc (normalize_field ext (deref ?st3 dP1)) (logc NormalizeField ?st3)")
  have f1: "frame st ?st1" by (simp add: frame_logc)
  from frame_alloc[OF f1 a1] have f2: "frame st st2" and r1: "nxt st \<le> dP1" by simp_all
  have f3: "frame st ?st3" by (rule frame_imul_mask[OF f2 r1])
  from frame_alloc[OF frame_logc[OF f3] a2] have f4: "frame st st4" and r2: "nxt st \<le> dP2"
    by simp_all
  show ?thesis
  proof (cases "divergence msk (deref st4 dP2)")
    case (Inl e)
    then show ?thesis
      unfolding skel_branch_def Let_def sp prod.case a1 a2 using f4 by simp
  next
    case dv: (Inr dv)
    show ?thesis
    proof (cases "set_shape (nrows msk) (ncols msk) (normalize99 ext dv)")
      case (Inl e)
      then show ?thesis
        unfolding skel_branch_def Let_def sp prod.case a1 a2 dv
        using frame_logc[OF f4, of Normalize99] by simp
    next
      case g: (Inr g)
      let ?st5 = "imul_grid dP2 g (logc Normalize99 st4)"
      have f5: "frame st ?st5"
        by (rule frame_imul_grid[OF frame_logc[OF f4] r2])
      obtain p inds tr where ff:
        "follow_flows ext (deref ?st5 dP2) msk None interp skel calc_trace = (p, inds, tr)"
        by (cases "follow_flows ext (deref ?st5 dP2) msk None interp skel calc_trace")
      let ?sa = "skel_assign self ext distf bd p inds (force_cluster d diam_threshold cluster) eps
                   (logc FollowFlows ?st5)"
      have f6: "frame st (snd ?sa)"
        by (rule frame_skel_assign[OF frame_logc[OF f5]])
      obtain res st7 where sa: "?sa = (res, st7)" by (cases ?sa)
      with f6 have f7: "frame st st7" by simp
      show ?thesis
        unfolding skel_branch_def Let_def sp prod.case a1 a2 dv g sum.case ff sa
        using f7 by (cases res) simp_all
    qed
  qed
qed


lemma frame_orig_branch:
  "frame st (snd (orig_branch ext dP msk p niter flow_threshold interp do_3D skel calc_trace st))"
proof (cases p)
  case None
  obtain q inds tr where ff:
    "follow_flows ext (map (map (map (\<lambda>v. v / 5))) (mul_mask (deref st dP) msk))
       msk (Some niter) interp skel calc_trace = (q, inds, tr)"
    by (cases "follow_flows ext (map (map (map (\<lambda>v. v / 5))) (mul_mask (deref st dP) msk))
       msk (Some niter) interp skel calc_trace")
  show ?thesis
    unfolding orig_branch_def None option.case Let_def ff prod.case
    by (simp add: frame_logc)
next
  case (Some q)
  show ?thesis
    unfolding orig_branch_def Some option.case Let_def prod.case
    by (simp add: frame_logc)
qed

lemma frame_resize_step:
  "frame st0 st \<Longrightarrow> frame st0 (snd (resize_step ext resize lab p st))"
  by (cases resize) (auto simp: resize_step_def Let_def frame_logc)

lemma frame_sanitize:
  "frame st0 st \<Longrightarrow> frame st0 (snd (sanitize ext lab k st))"
  by (auto simp: sanitize_def frame_logc split: sum.splits)

lemma frame_reconstruct:
  "frame st (snd (reconstruct self ext dP distf bd p niter dist_threshold diam_threshold
      flow_threshold interp cluster do_3D resize skel calc_trace st))"
proof (cases "np_any (seed_mask (value_based_casting ext) skel distf dist_threshold)")
  case False
  then show ?thesis by (simp add: reconstruct_def)
next
  case True
  let ?msk = "seed_mask (value_based_casting ext) skel distf dist_threshold"
  let ?b = "if \<not> skel
            then orig_branch ext dP ?msk p niter flow_threshold interp do_3D skel calc_trace st
            else skel_branch self ext dP distf bd ?msk diam_threshold interp cluster skel
                   calc_trace st"
  have fb: "frame st (snd ?b)"
    by (simp add: frame_orig_branch frame_skel_branch)
  obtain res st' where b: "?b = (res, st')" by (cases ?b)
  with fb have f': "frame st st'" by simp
  show ?thesis
  proof (cases res)
    case (Inl e)
    with b f' True show ?thesis by (simp add: reconstruct_def Let_def)
  next
    case (Inr t)
    obtain lab q tr where t: "t = (lab, q, tr)" by (cases t)
    obtain lq st'' where rs: "resize_step ext resize lab q st' = (lq, st'')"
      by (cases "resize_step ext resize lab q st'")
    obtain lab' q' where lq: "lq = (lab', q')" by (cases lq)
    from frame_resize_step[OF f', of ext resize lab q] rs have "frame st st''" by simp
    with b Inr t rs lq True show ?thesis by (simp add: reconstruct_def Let_def)
  qed
qed

lemma frame_compute_masks:
  "frame st (snd (compute_masks self ext dP distf bd p niter dist_threshold diam_threshold
      flow_threshold interp cluster do_3D min_size resize skel calc_trace st))"
proof -
  let ?r = "reconstruct self ext dP distf bd p niter dist_threshold diam_threshold
      flow_threshold interp cluster do_3D resize skel calc_trace st"
  obtain res st1 where r: "?r = (res, st1)" by (cases ?r)
  with frame_reconstruct[of st self ext dP distf bd p niter dist_threshold diam_threshold
      flow_threshold interp cluster do_3D resize skel calc_trace]
  have f1: "frame st st1" by simp
  show ?thesis
  proof (cases res)
    case (Inl e)
    with r f1 show ?thesis by (simp add: compute_masks_def)
  next
    case (Inr t)
    obtain lab q tr where t: "t = (lab, q, tr)" by (cases t)
    obtain s st2 where sn: "sanitize ext lab min_size st1 = (s, st2)"
      by (cases "sanitize ext lab min_size st1")
    from frame_sanitize[OF f1, of ext lab min_size] sn have "frame st st2" by simp
    with r Inr t sn show ?thesis by (cases s) (simp_all add: compute_masks_def)
  qed
qed

text \<open>
  C8: after \<^verbatim>\<open>_compute_masks\<close> the array at the caller's address of \<open>dP\<close> holds what it
  held before, as does every array alive before the call. The in-place products
  \<^verbatim>\<open>dP *= mask\<close> and \<^verbatim>\<open>dP *= div\<close> hit the copy of line 701 and the array
  \<^verbatim>\<open>normalize_field\<close> returns; \<^verbatim>\<open>dP * mask / 5.\<close> is a new array.
\<close>

theorem compute_masks_preserves_dP:
  assumes "dP < nxt st"
  shows "heap (snd (compute_masks self ext dP distf bd p niter dist_threshold diam_threshold
      flow_threshold interp cluster do_3D min_size resize skel calc_trace st)) dP = heap st dP \<and>
    (\<forall>r < nxt st. heap (snd (compute_masks self ext dP distf bd p niter dist_threshold
      diam_threshold flow_threshold interp cluster do_3D min_size resize skel calc_trace st)) r
        = heap st r)"
  using assms frame_compute_masks[of st self ext dP distf bd p niter dist_threshold diam_threshold
      flow_threshold interp cluster do_3D min_size resize skel calc_trace]
  by (simp add: frame_def)


theorem compute_masks_preserves_dP_witness:
  "0 < nxt example_state \<and>
   heap (snd (compute_masks \<lparr>nclasses = 4, SKLEARN_ENABLED = True\<rparr> example_ext 0
      [[1, 0], [1, 1]] [[0, 0], [0, 0]] None 200 0 12 (2 / 5) True False False 15 None True False
      example_state)) 0 = Some [[[1, 0], [0, 1]], [[0, 1], [1, 0]]]"
proof -
  have h: "0 < nxt example_state" by (simp add: example_state_def)
  have v: "heap example_state 0 = Some [[[1, 0], [0, 1]], [[0, 1], [1, 0]]]"
    by (simp add: example_state_def)
  from compute_masks_preserves_dP[OF h, of "\<lparr>nclasses = 4, SKLEARN_ENABLED = True\<rparr>" example_ext
      "[[1, 0], [1, 1]]" "[[0, 0], [0, 0]]" None 200 0 12 "2 / 5" True False False 15 None True False]
    h v show ?thesis by simp
qed

subsection \<open>Writing through index arrays\<close>

lemma np_index_int: "np_index n (int y) = (if y < n then Inr y else Inl IndexError)"
  by (simp add: np_index_def)

lemma np_set2_int:
  "np_set2 a (int y, int x) v =
     (if y < nrows a then if x < ncols a then Inr (a[y := (a ! y)[x := v]]) else Inl IndexError
      else Inl IndexError)"
  by (simp add: np_set2_def np_index_int)

lemma ncols_update: "ncols (a[y := (a ! y)[x := v]]) = ncols a"
proof (cases a)
  case Nil
  then show ?thesis by simp
next
  case (Cons r rs)
  then show ?thesis by (cases y) (simp_all add: ncols_def)
qed

lemma update_shape:
  assumes "rect a"
  shows "nrows (a[y := (a ! y)[x := v]]) = nrows a"
    and "ncols (a[y := (a ! y)[x := v]]) = ncols a"
    and "rect (a[y := (a ! y)[x := v]])"
proof -
  show "nrows (a[y := (a ! y)[x := v]]) = nrows a" by (simp add: nrows_def)
  show c: "ncols (a[y := (a ! y)[x := v]]) = ncols a" by (rule ncols_update)
  show "rect (a[y := (a ! y)[x := v]])"
    unfolding rect_def c list_all_length
  proof (intro allI impI)
    fix n assume "n < length (a[y := (a ! y)[x := v]])"
    then have n: "n < length a" by simp
    with assms have "length (a ! n) = ncols a" by (simp add: rect_def list_all_length)
    with n show "length (a[y := (a ! y)[x := v]] ! n) = ncols a"
      by (cases "n = y") simp_all
  qed
qed

lemma update_nth:
  assumes "y < nrows a" "x < length (a ! y)" "y' < nrows a"
  shows "a[y := (a ! y)[x := v]] ! y' ! x' = (if y' = y \<and> x' = x then v else a ! y' ! x')"
  using assms by (auto simp: nrows_def nth_list_update)

lemma np_scatter_ints:
  assumes "rect a" and "np_scatter a (ints ps) vs = Inr a'"
  shows "length vs = length ps \<and> rect a' \<and> nrows a' = nrows a \<and> ncols a' = ncols a \<and>
         (\<forall>y x. y < nrows a \<longrightarrow> x < ncols a \<longrightarrow> (y, x) \<notin> set ps \<longrightarrow> a' ! y ! x = a ! y ! x) \<and>
         (distinct ps \<longrightarrow> (\<forall>i < length ps. a' ! fst (ps ! i) ! snd (ps ! i) = vs ! i))"
  using assms
proof (induction ps arbitrary: a vs)
  case Nil
  then show ?case by (cases vs) (simp_all add: ints_def)
next
  case (Cons q ps)
  obtain y x where q: "q = (y, x)" by (cases q)
  from Cons.prems(2) obtain v ws where vs: "vs = v # ws"
    by (cases vs) (simp_all add: ints_def)
  let ?b = "a[y := (a ! y)[x := v]]"
  from Cons.prems(2) have y: "y < nrows a" and x: "x < ncols a"
    and rest: "np_scatter ?b (ints ps) ws = Inr a'"
    by (auto simp: ints_def q vs np_set2_int split: if_splits)
  note sh = update_shape[OF Cons.prems(1), of y x v]
  from Cons.IH[OF sh(3) rest] have len: "length ws = length ps" and r: "rect a'"
    and nr: "nrows a' = nrows a" and nc: "ncols a' = ncols a"
    and keep: "\<And>u w. u < nrows a \<Longrightarrow> w < ncols a \<Longrightarrow> (u, w) \<notin> set ps \<Longrightarrow> a' ! u ! w = ?b ! u ! w"
    and hit: "distinct ps \<Longrightarrow> i < length ps \<Longrightarrow> a' ! fst (ps ! i) ! snd (ps ! i) = ws ! i" for i
    by (simp_all add: sh)
  have xl: "x < length (a ! y)" using rect_nth[OF Cons.prems(1) y] x by simp
  have upd: "?b ! u ! w = (if u = y \<and> w = x then v else a ! u ! w)" if "u < nrows a" for u w
    using update_nth[OF y xl that] by simp
  have k: "\<forall>u w. u < nrows a \<longrightarrow> w < ncols a \<longrightarrow> (u, w) \<notin> set (q # ps) \<longrightarrow> a' ! u ! w = a ! u ! w"
    using keep upd by (auto simp: q)
  have h: "distinct (q # ps) \<longrightarrow> (\<forall>i < length (q # ps). a' ! fst ((q # ps) ! i) ! snd ((q # ps) ! i) = vs ! i)"
  proof (intro impI allI)
    fix i assume d: "distinct (q # ps)" and i: "i < length (q # ps)"
    show "a' ! fst ((q # ps) ! i) ! snd ((q # ps) ! i) = vs ! i"
    proof (cases i)
      case 0
      from d have "(y, x) \<notin> set ps" by (simp add: q)
      from keep[OF y x this] upd[OF y] show ?thesis by (simp add: 0 q vs)
    next
      case (Suc j)
      with i d hit[of j] show ?thesis by (simp add: vs)
    qed
  qed
  from len r nr nc k h show ?case by (simp add: vs)
qed

subsection \<open>C9: the Mask Sanitizer run twice\<close>

lemma funpow_fixed: "f x = x \<Longrightarrow> (f ^^ n) x = x"
  by (induction n) simp_all

lemma mask_sanitizer_ring_first: "mask_sanitizer [[1,1,1],[1,2,1],[1,1,1]] 2 = [[1,1,1],[1,0,1],[1,1,1]]"
  by code_simp

lemma mask_sanitizer_ring_second: "mask_sanitizer [[1,1,1],[1,0,1],[1,1,1]] 2 = [[1,1,1],[1,1,1],[1,1,1]]"
proof -
  let ?M = "[[1,1,1],[1,0,1],[1,1,1]] :: int grid"
  let ?c = "[[False,False,False],[False,True,False],[False,False,False]]"
  have bg: "background ?M = ?c" by code_simp
  have init: "tabulate (nrows ?c) (ncols ?c) (\<lambda>y x.
          px ?c False (int y) (int x) \<and>
          px (tabulate (nrows ?c) (ncols ?c) (\<lambda>v u. v = Suc 0 \<and> u = Suc 0)) False (int y) (int x)) = ?c"
    by code_simp
  have fx: "spread ?c ?c = ?c" by code_simp
  have c: "component (background ?M) (Suc 0) (Suc 0) = ?c"
    unfolding bg component_def connected_to_high_def init using fx by (rule funpow_fixed[of "spread ?c" ?c])
  have tb: "\<not> touches_border ?c" by code_simp
  have nl: "remdups (neighbour_labels ?M ?c) = [1]" by code_simp
  have hl: "hole_label ?M (Suc 0) (Suc 0) = Some 1"
    unfolding hole_label_def c Let_def using tb nl by simp
  have fh: "fill_holes ?M = [[1,1,1],[1,1,1],[1,1,1]]"
    unfolding fill_holes_def
    by (simp add: tabulate_def nrows_def ncols_def hl upt_conv_Cons del: upt_Suc)
  have rest: "grid_of (renumber (Arr2 (remove_small_masks [[1,1,1],[1,1,1],[1,1,1]] 2)))
      = [[1,1,1],[1,1,1],[1,1,1]]"
    by code_simp
  show ?thesis unfolding mask_sanitizer_def fh rest ..
qed

lemma remap_dict_Cons_None:
  "d v = None \<Longrightarrow> remap_dict d n (v # vs) = remap_dict (d(v \<mapsto> n)) (n + 1) vs"
  by simp

lemma remap_dict_Cons_Some:
  "d v = Some k \<Longrightarrow> remap_dict d n (v # vs) = remap_dict d n vs"
  by simp

lemma remap_dict_mono: "d v = Some k \<Longrightarrow> remap_dict d n vs v = Some k"
proof (induction vs arbitrary: d n)
  case Nil
  then show ?case by simp
next
  case (Cons u vs)
  show ?case
  proof (cases "d u")
    case None
    with Cons.prems have "u \<noteq> v" by auto
    with Cons.prems have "(d(u \<mapsto> n)) v = Some k" by simp
    then have "remap_dict (d(u \<mapsto> n)) (n + 1) vs v = Some k" by (rule Cons.IH)
    then show ?thesis unfolding remap_dict_Cons_None[where d = d and v = u and n = n and vs = vs, OF None] .
  next
    case (Some j)
    from Cons.prems have "remap_dict d n vs v = Some k" by (rule Cons.IH)
    then show ?thesis unfolding remap_dict_Cons_Some[where d = d and v = u and n = n and vs = vs, OF Some] .
  qed
qed

lemma remap_dict_new: "remap_dict (d(v \<mapsto> n)) m vs v = Some n"
  by (rule remap_dict_mono) simp

lemma inj_dict_step:
  assumes "dense_dict d n" and "inj_dict d" and "d v = None"
  shows "inj_dict (d(v \<mapsto> n))"
proof -
  from assms(1) have lt: "\<And>u k. d u = Some k \<Longrightarrow> k < n" by (auto simp: dense_dict_def)
  show ?thesis
    unfolding inj_dict_def
  proof (intro allI impI)
    fix u w k assume u: "(d(v \<mapsto> n)) u = Some k" and w: "(d(v \<mapsto> n)) w = Some k"
    show "u = w"
    proof (cases "u = v")
      case True
      with u have k: "k = n" by simp
      show ?thesis
      proof (cases "w = v")
        case True
        with \<open>u = v\<close> show ?thesis by simp
      next
        case False
        with w k have "d w = Some n" by simp
        with lt[of w n] show ?thesis by simp
      qed
    next
      case False
      with u have du: "d u = Some k" by simp
      show ?thesis
      proof (cases "w = v")
        case True
        with w have "k = n" by simp
        with du lt[of u n] show ?thesis by simp
      next
        case False
        with w have "d w = Some k" by simp
        with du assms(2) show ?thesis by (auto simp: inj_dict_def)
      qed
    qed
  qed
qed

lemma remap_dict_inj:
  "dense_dict d n \<Longrightarrow> inj_dict d \<Longrightarrow> inj_dict (remap_dict d n vs)"
proof (induction vs arbitrary: d n)
  case Nil
  then show ?case by simp
next
  case (Cons v vs)
  show ?case
  proof (cases "d v")
    case None
    have "inj_dict (remap_dict (d(v \<mapsto> n)) (n + 1) vs)"
      by (rule Cons.IH[OF dense_dict_step[OF Cons.prems(1) None] inj_dict_step[OF Cons.prems None]])
    then show ?thesis unfolding remap_dict_Cons_None[where d = d and v = v and n = n and vs = vs, OF None] .
  next
    case (Some k)
    have "inj_dict (remap_dict d n vs)" by (rule Cons.IH[OF Cons.prems])
    then show ?thesis unfolding remap_dict_Cons_Some[where d = d and v = v and n = n and vs = vs, OF Some] .
  qed
qed

lemma first_order_renumbered:
  "dense_dict d n \<Longrightarrow> first_order n (map (ap (remap_dict d n vs)) vs)"
proof (induction vs arbitrary: d n)
  case Nil
  then show ?case by simp
next
  case (Cons v vs)
  show ?case
  proof (cases "d v")
    case None
    let ?d = "remap_dict (d(v \<mapsto> n)) (n + 1) vs"
    have h: "ap ?d v = n" by (simp add: ap_def remap_dict_new)
    have t: "first_order (n + 1) (map (ap ?d) vs)"
      by (rule Cons.IH[OF dense_dict_step[OF Cons.prems None]])
    have "first_order n (ap ?d v # map (ap ?d) vs)" unfolding h using t by simp
    then show ?thesis unfolding remap_dict_Cons_None[where d = d and v = v and n = n and vs = vs, OF None] by simp
  next
    case (Some k)
    let ?d = "remap_dict d n vs"
    have "?d v = Some k" using Some by (rule remap_dict_mono)
    then have h: "ap ?d v = k" by (simp add: ap_def)
    from Cons.prems Some have k: "0 \<le> k \<and> k < n" by (auto simp: dense_dict_def)
    have t: "first_order n (map (ap ?d) vs)" by (rule Cons.IH[OF Cons.prems])
    have "first_order n (ap ?d v # map (ap ?d) vs)" unfolding h using t k by simp
    then show ?thesis unfolding remap_dict_Cons_Some[where d = d and v = v and n = n and vs = vs, OF Some] by simp
  qed
qed

lemma renumber_first_order_id:
  "id_dict d n \<Longrightarrow> 0 \<le> n \<Longrightarrow> first_order n ys \<Longrightarrow> map (ap (remap_dict d n ys)) ys = ys"
proof (induction ys arbitrary: d n)
  case Nil
  then show ?case by simp
next
  case (Cons v ys)
  show ?case
  proof (cases "0 \<le> v \<and> v < n")
    case True
    with Cons.prems(1) have dv: "d v = Some v" by (simp add: id_dict_def)
    let ?d = "remap_dict d n ys"
    have "?d v = Some v" using dv by (rule remap_dict_mono)
    then have h: "ap ?d v = v" by (simp add: ap_def)
    from Cons.prems(3) True have "first_order n ys" by simp
    then have t: "map (ap ?d) ys = ys" by (rule Cons.IH[OF Cons.prems(1,2)])
    have "ap ?d v # map (ap ?d) ys = v # ys" unfolding h t ..
    then show ?thesis unfolding remap_dict_Cons_Some[where d = d and v = v and n = n and vs = ys, OF dv] by simp
  next
    case False
    with Cons.prems(3) have v: "v = n" and fo: "first_order (n + 1) ys" by simp_all
    from Cons.prems(2) have n1: "0 \<le> n + 1" by simp
    from Cons.prems(1) v have dv: "d v = None" by (simp add: id_dict_def)
    have idd: "id_dict (d(v \<mapsto> n)) (n + 1)"
      using Cons.prems(1,2) v by (auto simp: id_dict_def)
    let ?d = "remap_dict (d(v \<mapsto> n)) (n + 1) ys"
    have h: "ap ?d v = v" by (simp add: ap_def remap_dict_new v)
    have t: "map (ap ?d) ys = ys" by (rule Cons.IH[OF idd n1 fo])
    have "ap ?d v # map (ap ?d) ys = v # ys" unfolding h t ..
    then show ?thesis unfolding remap_dict_Cons_None[where d = d and v = v and n = n and vs = ys, OF dv] by simp
  qed
qed


lemma renumber_ap: "renumber a = map_ndarray (ap (remap_dict [0 \<mapsto> 0] 1 (flatten a))) a"
proof -
  have "(\<lambda>v. case d v of Some k \<Rightarrow> k | None \<Rightarrow> v) = ap d" for d
    by (rule ext) (simp add: ap_def)
  then show ?thesis by (simp add: renumber_def Let_def)
qed

lemma flatten_map: "flatten (map_ndarray f a) = map f (flatten a)"
  by (cases a) (simp_all add: map_concat)

lemma dense_dict_init: "dense_dict [0 \<mapsto> 0] 1"
  by (auto simp: dense_dict_def)

lemma renumber_idem: "renumber (renumber a) = renumber a"
proof -
  let ?d = "remap_dict [0 \<mapsto> 0] 1 (flatten a)"
  let ?b = "renumber a"
  let ?d2 = "remap_dict [0 \<mapsto> 0] 1 (flatten ?b)"
  have fb: "flatten ?b = map (ap ?d) (flatten a)"
    by (simp add: renumber_ap[of a] flatten_map)
  have fo: "first_order 1 (flatten ?b)"
    unfolding fb by (rule first_order_renumbered[OF dense_dict_init])
  have idd: "id_dict [0 \<mapsto> 0] 1" by (auto simp: id_dict_def)
  have "map (ap ?d2) (flatten ?b) = flatten ?b"
    by (rule renumber_first_order_id[OF idd _ fo]) simp
  then have "\<forall>v \<in> set (flatten ?b). ap ?d2 v = v" by (simp add: map_idI map_eq_conv[where g = id, simplified])
  then have fixv: "\<And>v. v \<in> set_ndarray ?b \<Longrightarrow> ap ?d2 v = id v" by (simp add: set_flatten)
  have "map_ndarray (ap ?d2) ?b = map_ndarray id ?b"
    by (rule ndarray.map_cong[OF refl fixv])
  then show ?thesis unfolding renumber_ap[of ?b] by (simp add: ndarray.map_id)
qed

lemma count_list_map_eq:
  "(\<And>u. u \<in> set xs \<Longrightarrow> (f u = w) = (u = v)) \<Longrightarrow> count_list (map f xs) w = count_list xs v"
  by (induction xs) auto

lemma remove_small_masks_kept:
  assumes "v \<in> set (concat (remove_small_masks Y k))" and "v \<noteq> 0"
  shows "k \<le> int (count_list (concat (remove_small_masks Y k)) v)"
proof -
  let ?r = "\<lambda>u. if u \<noteq> 0 \<and> int (count_list (concat Y) u) < k then 0 else u"
  have c: "concat (remove_small_masks Y k) = map ?r (concat Y)"
    by (simp add: remove_small_masks_def map_concat)
  from assms(1) have "v \<in> ?r ` set (concat Y)" unfolding c by (simp only: set_map)
  then obtain u where u: "u \<in> set (concat Y)" and vu: "v = ?r u" by (rule imageE)
  from vu assms(2) have uv: "u = v" and big: "\<not> int (count_list (concat Y) v) < k"
    by (auto split: if_splits)
  have "count_list (map ?r (concat Y)) v = count_list (concat Y) v"
    by (rule count_list_map_eq) (use assms(2) big in \<open>auto split: if_splits\<close>)
  with big show ?thesis unfolding c by simp
qed

lemma renumber_counts:
  assumes "w \<in> set (flatten (renumber a))" and "w \<noteq> 0"
  shows "\<exists>v \<in> set (flatten a). v \<noteq> 0 \<and>
           count_list (flatten (renumber a)) w = count_list (flatten a) v"
proof -
  let ?d = "remap_dict [0 \<mapsto> 0] 1 (flatten a)"
  have fb: "flatten (renumber a) = map (ap ?d) (flatten a)"
    by (simp add: renumber_ap[of a] flatten_map)
  from remap_dict_dense[OF dense_dict_init, of "flatten a"] obtain n
    where dn: "dense_dict ?d n" and dm: "dom ?d = dom [0 \<mapsto> (0::int)] \<union> set (flatten a)"
    by blast
  have inj0: "inj_dict [0 \<mapsto> (0::int)]" by (auto simp: inj_dict_def split: if_splits)
  have inj: "inj_dict ?d" by (rule remap_dict_inj[OF dense_dict_init inj0])
  have val: "\<exists>k. ?d u = Some k \<and> ap ?d u = k" if "u \<in> set (flatten a)" for u
  proof -
    from that dm have "u \<in> dom ?d" by blast
    then obtain k where "?d u = Some k" by blast
    then show ?thesis by (simp add: ap_def)
  qed
  from assms(1) obtain v where v: "v \<in> set (flatten a)" and wv: "w = ap ?d v"
    unfolding fb by auto
  from val[OF v] obtain k where k: "?d v = Some k" "ap ?d v = k" by blast
  with dn wv assms(2) have v0: "v \<noteq> 0" by (auto simp: dense_dict_def)
  have "count_list (map (ap ?d) (flatten a)) w = count_list (flatten a) v"
  proof (rule count_list_map_eq)
    fix u assume u: "u \<in> set (flatten a)"
    from val[OF u] obtain j where j: "?d u = Some j" "ap ?d u = j" by blast
    show "(ap ?d u = w) = (u = v)"
    proof
      assume "ap ?d u = w"
      with j k wv have "?d u = Some k" by simp
      with k(1) inj show "u = v" by (auto simp: inj_dict_def)
    next
      assume "u = v"
      then show "ap ?d u = w" by (simp add: wv)
    qed
  qed
  with v v0 show ?thesis unfolding fb by blast
qed

text \<open>
  C9, as stated, fails on the sanitizer of section 4.6. On a ring of label 1 around one
  pixel of label 2, with \<open>min_size = 2\<close>, the first run finds no hole, discards label 2
  and returns the ring around a background pixel; that pixel is now a hole, and the
  second run fills it with label 1.
\<close>

theorem mask_sanitizer_not_idempotent:
  "mask_sanitizer (mask_sanitizer [[1, 1, 1], [1, 2, 1], [1, 1, 1]] 2) 2
     \<noteq> mask_sanitizer [[1, 1, 1], [1, 2, 1], [1, 1, 1]] 2"
  unfolding mask_sanitizer_ring_first mask_sanitizer_ring_second by simp

text \<open>
  C9, amended: a second run of the Mask Sanitizer returns its input unchanged whenever
  that input, the output of the first run, has no hole. (The first run can open a hole
  by discarding an instance that another one encloses.)
\<close>

theorem mask_sanitizer_idempotent_without_holes:
  assumes "fill_holes (mask_sanitizer L min_size) = mask_sanitizer L min_size"
  shows "mask_sanitizer (mask_sanitizer L min_size) min_size = mask_sanitizer L min_size"
proof -
  let ?X = "remove_small_masks (fill_holes L) min_size"
  let ?M = "mask_sanitizer L min_size"
  have rn: "renumber (Arr2 ?X) = Arr2 ?M"
    by (simp add: mask_sanitizer_def renumber_ap[of "Arr2 ?X"])
  have big: "min_size \<le> int (count_list (concat ?M) w)" if "w \<in> set (concat ?M)" "w \<noteq> 0" for w
  proof -
    from that have "w \<in> set (flatten (renumber (Arr2 ?X)))" by (simp add: rn)
    from renumber_counts[OF this that(2)] obtain v where v: "v \<in> set (concat ?X)" "v \<noteq> 0"
      and c: "count_list (concat ?M) w = count_list (concat ?X) v"
      by (auto simp: rn)
    from remove_small_masks_kept[OF v] c show ?thesis by simp
  qed
  have keep: "remove_small_masks ?M min_size = ?M"
    unfolding remove_small_masks_def
  proof (rule map_idI, rule map_idI)
    fix row w assume "row \<in> set ?M" and "w \<in> set row"
    then have "w \<in> set (concat ?M)" by auto
    with big[of w] show "(if w \<noteq> 0 \<and> int (count_list (concat ?M) w) < min_size then 0 else w) = w"
      by auto
  qed
  have "renumber (Arr2 ?M) = Arr2 ?M"
    using renumber_idem[of "Arr2 ?X"] unfolding rn .
  then have "grid_of (renumber (Arr2 (remove_small_masks (fill_holes ?M) min_size))) = ?M"
    unfolding assms keep by simp
  then show ?thesis unfolding mask_sanitizer_def[of ?M] .
qed

lemma fill_holes_open_corner:
  assumes "background L = [[False, True], [False, False]]" and "L = [[a, 0], [b, c]]"
  shows "fill_holes L = L"
proof -
  let ?c = "[[False, True], [False, False]]"
  have init: "tabulate (nrows ?c) (ncols ?c) (\<lambda>y x.
          px ?c False (int y) (int x) \<and>
          px (tabulate (nrows ?c) (ncols ?c) (\<lambda>v u. v = 0 \<and> u = Suc 0)) False (int y) (int x)) = ?c"
    by code_simp
  have fx: "spread ?c ?c = ?c" by code_simp
  have c: "component (background L) 0 (Suc 0) = ?c"
    unfolding assms(1) component_def connected_to_high_def init
    using fx by (rule funpow_fixed[of "spread ?c" ?c])
  have tb: "touches_border ?c" by code_simp
  have hl: "hole_label L 0 (Suc 0) = None"
    unfolding hole_label_def c Let_def using tb by simp
  from assms have nz: "a \<noteq> 0" "b \<noteq> 0" "c \<noteq> 0" by (simp_all add: background_def)
  show ?thesis
    unfolding fill_holes_def
    by (simp add: assms(2) nz tabulate_def nrows_def ncols_def hl[unfolded assms(2)]
        upt_conv_Cons del: upt_Suc)
qed

theorem mask_sanitizer_idempotent_without_holes_witness:
  "fill_holes (mask_sanitizer [[4, 0], [4, 7]] (- 1)) = mask_sanitizer [[4, 0], [4, 7]] (- 1) \<and>
   mask_sanitizer (mask_sanitizer [[4, 0], [4, 7]] (- 1)) (- 1) = [[1, 0], [1, 2]]"
proof -
  have f1: "fill_holes [[4, 0], [4, 7]] = [[4, 0], [4, 7]]"
    by (rule fill_holes_open_corner[of _ 4 4 7]) (simp_all add: background_def)
  have r1: "grid_of (renumber (Arr2 (remove_small_masks [[4, 0], [4, 7]] (- 1)))) = [[1, 0], [1, 2]]"
    by code_simp
  have m: "mask_sanitizer [[4, 0], [4, 7]] (- 1) = [[1, 0], [1, 2]]"
    unfolding mask_sanitizer_def f1 r1 ..
  have f2: "fill_holes [[1, 0], [1, 2]] = [[1, 0], [1, 2]]"
    by (rule fill_holes_open_corner[of _ 1 1 2]) (simp_all add: background_def)
  have h: "fill_holes (mask_sanitizer [[4, 0], [4, 7]] (- 1)) = mask_sanitizer [[4, 0], [4, 7]] (- 1)"
    unfolding m f2 ..
  from mask_sanitizer_idempotent_without_holes[OF h] h m show ?thesis by simp
qed

subsection \<open>C10: noise becomes background\<close>

lemma np_scatter_some:
  assumes "rect a" and "np_scatter a (ints ps) vs = Inr a'" and "(y, x) \<in> set ps"
  shows "\<exists>i < length ps. ps ! i = (y, x) \<and> a' ! y ! x = vs ! i"
  using assms
proof (induction ps arbitrary: a vs)
  case Nil
  then show ?case by simp
next
  case (Cons q ps)
  obtain u w where q: "q = (u, w)" by (cases q)
  from Cons.prems(2) obtain v ws where vs: "vs = v # ws"
    by (cases vs) (simp_all add: ints_def)
  let ?b = "a[u := (a ! u)[w := v]]"
  from Cons.prems(2) have u: "u < nrows a" and w: "w < ncols a"
    and rest: "np_scatter ?b (ints ps) ws = Inr a'"
    by (auto simp: ints_def q vs np_set2_int split: if_splits)
  note sh = update_shape[OF Cons.prems(1), of u w v]
  show ?case
  proof (cases "(y, x) \<in> set ps")
    case True
    from Cons.IH[OF sh(3) rest True] obtain i where "i < length ps" "ps ! i = (y, x)"
      "a' ! y ! x = ws ! i" by blast
    then have "Suc i < length (q # ps) \<and> (q # ps) ! Suc i = (y, x) \<and> a' ! y ! x = vs ! Suc i"
      by (simp add: vs)
    then show ?thesis by blast
  next
    case False
    with Cons.prems(3) have yx: "y = u" "x = w" by (simp_all add: q)
    from np_scatter_ints[OF sh(3) rest] False u w sh
    have "a' ! u ! w = ?b ! u ! w" by (simp add: yx)
    moreover have "w < length (a ! u)" using rect_nth[OF Cons.prems(1) u] w by simp
    ultimately have "a' ! u ! w = v" using u by (simp add: nrows_def)
    then have "0 < length (q # ps) \<and> (q # ps) ! 0 = (y, x) \<and> a' ! y ! x = vs ! 0"
      by (simp add: q yx vs)
    then show ?thesis by blast
  qed
qed

lemma cluster_example_branch:
  "\<exists>st7. skel_branch \<lparr>nclasses = 4, SKLEARN_ENABLED = True\<rparr> cluster_ext 0
          distf bd [[True, True, True], [True, True, True], [True, True, True]] 12 interp False True False
          zero_state
     = (Inr ([[1, 1, 1], [1, 0, 1], [1, 1, 1]],
            [[[0, 0, 0], [0, 1, 0], [0, 0, 0]], [[0, 0, 0], [0, 1, 0], [0, 0, 0]]], []), st7)"
proof -
  note e = cluster_example(1)[where distf = distf]
    cluster_example(2,3) cluster_example(4)[where interp = interp] cluster_example(5,6,7)
  from skel_branch_run[OF e(1) e(2) e(3) e(4), where bd = bd and diam_threshold = 12 and cluster = False]
  obtain st6 where run: "skel_branch \<lparr>nclasses = 4, SKLEARN_ENABLED = True\<rparr> cluster_ext 0
          distf bd [[True, True, True], [True, True, True], [True, True, True]] 12 interp False True False
          zero_state
     = (case skel_assign \<lparr>nclasses = 4, SKLEARN_ENABLED = True\<rparr> cluster_ext distf bd
               [[[0, 0, 0], [0, 1, 0], [0, 0, 0]], [[0, 0, 0], [0, 1, 0], [0, 0, 0]]]
               [(0, 0), (0, 1), (0, 2), (1, 0), (1, 1), (1, 2), (2, 0), (2, 1), (2, 2)]
               (force_cluster 3 12 False) (1 + 1 / 3) st6 of
                (Inl e, st7) \<Rightarrow> (Inl e, st7)
              | (Inr lab, st7) \<Rightarrow> (Inr (lab,
                  [[[0, 0, 0], [0, 1, 0], [0, 0, 0]], [[0, 0, 0], [0, 1, 0], [0, 0, 0]]], []), st7))"
    by blast
  have f: "force_cluster 3 12 False = True" by (simp add: force_cluster_def)
  have sk: "SKLEARN_ENABLED \<lparr>nclasses = 4, SKLEARN_ENABLED = True\<rparr> = True" by simp
  have cl: "cluster_labels \<lparr>nclasses = 4, SKLEARN_ENABLED = True\<rparr> cluster_ext (1 + 1 / 3)
               [(0, 0), (0, 0), (0, 0), (0, 0), (1, 1), (0, 0), (0, 0), (0, 0), (0, 0)]
      = Inr (map (\<lambda>l. l + 1) [0, 0, 0, 0, - 1, 0, 0, 0, 0])"
    unfolding cluster_labels_def sk e(6) by (simp only: if_True)
  have sa: "skel_assign \<lparr>nclasses = 4, SKLEARN_ENABLED = True\<rparr> cluster_ext distf bd
               [[[0, 0, 0], [0, 1, 0], [0, 0, 0]], [[0, 0, 0], [0, 1, 0], [0, 0, 0]]]
               [(0, 0), (0, 1), (0, 2), (1, 0), (1, 1), (1, 2), (2, 0), (2, 1), (2, 2)]
               True (1 + 1 / 3) st6
      = (Inr [[1, 1, 1], [1, 0, 1], [1, 1, 1]], logc (Dbscan (1 + 1 / 3) 3) st6)"
    unfolding skel_assign_def e(5) sum.case Let_def if_True cl e(7) ..
  show ?thesis unfolding run f sa by simp
qed

lemma ones_seed_mask:
  "seed_mask True True [[1, 1, 1], [1, 1, 1], [1, 1, 1]] 0
     = [[True, True, True], [True, True, True], [True, True, True]]"
proof -
  let ?T = "[[True, True, True], [True, True, True], [True, True, True]]"
  have m: "seed_mask True True [[1, 1, 1], [1, 1, 1], [1, 1, 1]] 0 = connected_to_high ?T ?T"
    by (simp add: seed_mask_def apply_hysteresis_threshold_def Let_def weak_scalar_def
        float64_scalar_def value_cast_def xmin_def xle_def float64_minus_1 float32_minus_1 fgt_def)
  have init: "tabulate (nrows ?T) (ncols ?T) (\<lambda>y x.
          px ?T False (int y) (int x) \<and> px ?T False (int y) (int x)) = ?T"
    by code_simp
  have fx: "spread ?T ?T = ?T" by code_simp
  have "connected_to_high ?T ?T = ?T"
    unfolding connected_to_high_def init using fx by (rule funpow_fixed[of "spread ?T" ?T])
  with m show ?thesis by simp
qed

text \<open>
  C10, as stated, fails for the mask that \<^verbatim>\<open>_compute_masks\<close> returns: the cleanup of
  line 794 comes after the clustering, and it fills holes. On a 3 by 3 foreground
  whose centre pixel stays at \<open>(1, 1)\<close> while the flow carries the other eight to
  \<open>(0, 0)\<close>, the centre has no other point within \<open>eps = 1 + 1/3\<close>, DBSCAN marks it
  as noise, and lines 743-748 leave a ring of label 1 around a 0. The Mask Sanitizer of
  section 4.6 fills the enclosed background pixel: in the mask returned the noise
  pixel belongs to instance 1.
\<close>

theorem cluster_noise_filled:
  "landing [[[0, 0, 0], [0, 1, 0], [0, 0, 0]], [[0, 0, 0], [0, 1, 0], [0, 0, 0]]]
       [(0, 0), (0, 1), (0, 2), (1, 0), (1, 1), (1, 2), (2, 0), (2, 1), (2, 2)]
     = Inr [(0, 0), (0, 0), (0, 0), (0, 0), (1, 1), (0, 0), (0, 0), (0, 0), (0, 0)] \<and>
   DBSCAN cluster_ext (1 + 1 / 3) 3
       [(0, 0), (0, 0), (0, 0), (0, 0), (1, 1), (0, 0), (0, 0), (0, 0), (0, 0)] ! 4 = - 1 \<and>
   ([(0, 0), (0, 1), (0, 2), (1, 0), (1, 1), (1, 2), (2, 0), (2, 1), (2, 2)] :: (nat \<times> nat) list) ! 4 = (1, 1) \<and>
   fst (reconstruct \<lparr>nclasses = 4, SKLEARN_ENABLED = True\<rparr> cluster_ext 0
          [[1, 1, 1], [1, 1, 1], [1, 1, 1]] [[0, 0, 0], [0, 0, 0], [0, 0, 0]] None 200 0 12 (2 / 5)
          True False False None True False zero_state)
     = Inr (Arr2 [[1, 1, 1], [1, 0, 1], [1, 1, 1]],
            [[[0, 0, 0], [0, 1, 0], [0, 0, 0]], [[0, 0, 0], [0, 1, 0], [0, 0, 0]]], []) \<and>
   fst (compute_masks \<lparr>nclasses = 4, SKLEARN_ENABLED = True\<rparr> cluster_ext 0
          [[1, 1, 1], [1, 1, 1], [1, 1, 1]] [[0, 0, 0], [0, 0, 0], [0, 0, 0]] None 200 0 12 (2 / 5)
          True False False 2 None True False zero_state)
     = Inr (Arr2 [[1, 1, 1], [1, 1, 1], [1, 1, 1]],
            [[[0, 0, 0], [0, 1, 0], [0, 0, 0]], [[0, 0, 0], [0, 1, 0], [0, 0, 0]]], []) \<and>
   Arr2 [[1, 1, 1], [1, 1, 1], [1, 1, 1 :: int]] \<noteq> Arr2 [[1, 1, 1], [1, 0, 1], [1, 1, 1]]"
proof -
  let ?self = "\<lparr>nclasses = 4, SKLEARN_ENABLED = True\<rparr>"
  let ?P = "[[[0, 0, 0], [0, 1, 0], [0, 0, 0]], [[0, 0, 0], [0, 1, 0], [0, 0, 0 :: real]]]"
  let ?R = "[[1, 1, 1], [1, 0, 1], [1, 1, 1 :: int]]"
  note la = cluster_example(5)
  have db: "DBSCAN cluster_ext (1 + 1 / 3) 3
       [(0, 0), (0, 0), (0, 0), (0, 0), (1, 1), (0, 0), (0, 0), (0, 0), (0, 0)] ! 4 = - 1"
    unfolding cluster_example(6) by simp
  have ix: "([(0, 0), (0, 1), (0, 2), (1, 0), (1, 1), (1, 2), (2, 0), (2, 1), (2, 2)] :: (nat \<times> nat) list) ! 4 = (1, 1)"
    by simp
  have vb: "value_based_casting cluster_ext = True" by (simp add: cluster_ext_def)
  from cluster_example_branch[of "[[1, 1, 1], [1, 1, 1], [1, 1, 1]]" "[[0, 0, 0], [0, 0, 0], [0, 0, 0]]" True]
  obtain st7 where br: "skel_branch ?self cluster_ext 0
          [[1, 1, 1], [1, 1, 1], [1, 1, 1]] [[0, 0, 0], [0, 0, 0], [0, 0, 0]]
          [[True, True, True], [True, True, True], [True, True, True]] 12 True False True False
          zero_state = (Inr (?R, ?P, []), st7)"
    by blast
  have rc: "reconstruct ?self cluster_ext 0
          [[1, 1, 1], [1, 1, 1], [1, 1, 1]] [[0, 0, 0], [0, 0, 0], [0, 0, 0]] None 200 0 12 (2 / 5)
          True False False None True False zero_state = (Inr (Arr2 ?R, ?P, []), st7)"
    unfolding reconstruct_def vb ones_seed_mask Let_def
    by (simp add: np_any_def br resize_step_def)
  have fh: "fill_holes_and_remove_small_masks cluster_ext (Arr2 ?R) 2
      = Inr (Arr2 (remove_small_masks (fill_holes ?R) 2))"
    by (simp add: cluster_ext_def)
  have "renumber (Arr2 (remove_small_masks (fill_holes ?R) 2))
      = Arr2 (mask_sanitizer ?R 2)"
    by (simp add: mask_sanitizer_def renumber_def)
  then have rn: "renumber (Arr2 (remove_small_masks (fill_holes ?R) 2))
      = Arr2 [[1, 1, 1], [1, 1, 1], [1, 1, 1]]"
    unfolding mask_sanitizer_ring_second .
  have cm: "fst (compute_masks ?self cluster_ext 0
          [[1, 1, 1], [1, 1, 1], [1, 1, 1]] [[0, 0, 0], [0, 0, 0], [0, 0, 0]] None 200 0 12 (2 / 5)
          True False False 2 None True False zero_state)
     = Inr (Arr2 [[1, 1, 1], [1, 1, 1], [1, 1, 1]], ?P, [])"
    unfolding compute_masks_def rc by (simp add: sanitize_def fh rn)
  have ne: "Arr2 [[1, 1, 1], [1, 1, 1], [1, 1, 1 :: int]] \<noteq> Arr2 [[1, 1, 1], [1, 0, 1], [1, 1, 1]]"
    by simp
  from la db ix rc cm ne show ?thesis by simp
qed

text \<open>
  C10, amended: when clustering is active in the skeleton regime, in the label array
  as lines 743-748 leave it, before resizing and before the cleanup, every pixel of
  \<open>inds\<close> carries the DBSCAN label of its landing coordinate plus one: cluster \<open>k\<close>
  is written as \<open>k + 1\<close>, and a pixel classified as noise (label \<open>-1\<close>) is 0, the
  background. Were a pixel listed several times in \<open>inds\<close>, it would carry the
  label of one of its entries; listed once, as the coordinates of the foreground are,
  it carries the label of that entry.
\<close>

theorem cluster_noise_background:
  assumes sp: "skel_params self ext distf msk skel = (d, eps, c)"
    and dv: "divergence msk (normalize_field ext (mul_mask (deref st dP) msk)) = Inr dv"
    and sh: "set_shape (nrows msk) (ncols msk) (normalize99 ext dv) = Inr dvg"
    and ff: "follow_flows ext (mul_grid (normalize_field ext (mul_mask (deref st dP) msk)) dvg)
               msk None interp skel calc_trace = (p, inds, tr)"
    and la: "landing p inds = Inr newinds"
    and cl: "force_cluster d diam_threshold cluster"
    and res: "fst (skel_branch self ext dP distf bd msk diam_threshold interp cluster skel
                     calc_trace st) = Inr (lab, q, tr')"
    and px: "(y, x) \<in> set inds"
  shows "(\<exists>i < length inds. inds ! i = (y, x) \<and> lab ! y ! x = DBSCAN ext eps 3 newinds ! i + 1) \<and>
         ((\<forall>i < length inds. inds ! i = (y, x) \<longrightarrow> DBSCAN ext eps 3 newinds ! i = - 1)
            \<longrightarrow> lab ! y ! x = 0) \<and>
         (distinct inds \<longrightarrow>
            (\<forall>i < length inds. lab ! fst (inds ! i) ! snd (inds ! i)
                                 = DBSCAN ext eps 3 newinds ! i + 1))"
proof -
  from skel_branch_run[OF sp dv sh ff, of bd diam_threshold cluster] cl obtain st6
    where run: "skel_branch self ext dP distf bd msk diam_threshold interp cluster skel calc_trace st
           = (case skel_assign self ext distf bd p inds True eps st6 of
                (Inl e, st7) \<Rightarrow> (Inl e, st7)
              | (Inr lab, st7) \<Rightarrow> (Inr (lab, p, tr), st7))"
    by auto
  from res have sa: "fst (skel_assign self ext distf bd p inds True eps st6) = Inr lab"
    unfolding run by (auto split: prod.splits sum.splits)
  let ?mask0 = "tabulate (nrows (p ! 0)) (ncols (p ! 0)) (\<lambda>y x. 0 :: int)"
  let ?vals = "map (\<lambda>l. l + 1) (DBSCAN ext eps 3 newinds)"
  from sa la have sc: "np_scatter ?mask0 (ints inds) ?vals = Inr lab"
    by (auto simp: skel_assign_def cluster_labels_def Let_def split: if_splits)
  note n = np_scatter_ints[OF rect_tabulate sc]
  from n have len: "length ?vals = length inds" by simp
  then have val: "?vals ! i = DBSCAN ext eps 3 newinds ! i + 1" if "i < length inds" for i
    using that by simp
  from np_scatter_some[OF rect_tabulate sc px] obtain i where i: "i < length inds"
    "inds ! i = (y, x)" "lab ! y ! x = ?vals ! i" by blast
  have a: "\<exists>i < length inds. inds ! i = (y, x) \<and> lab ! y ! x = DBSCAN ext eps 3 newinds ! i + 1"
    using i val[OF i(1)] by auto
  have b: "(\<forall>i < length inds. inds ! i = (y, x) \<longrightarrow> DBSCAN ext eps 3 newinds ! i = - 1)
            \<longrightarrow> lab ! y ! x = 0"
    using i val[OF i(1)] by auto
  have c: "distinct inds \<longrightarrow>
            (\<forall>i < length inds. lab ! fst (inds ! i) ! snd (inds ! i)
                                 = DBSCAN ext eps 3 newinds ! i + 1)"
    using n val by auto
  from a b c show ?thesis by blast
qed

theorem cluster_noise_background_witness:
  "force_cluster 3 12 False \<and>
   (1, 1) \<in> set ([(0, 0), (0, 1), (0, 2), (1, 0), (1, 1), (1, 2), (2, 0), (2, 1), (2, 2)] :: (nat \<times> nat) list) \<and>
   fst (skel_branch \<lparr>nclasses = 4, SKLEARN_ENABLED = True\<rparr> cluster_ext 0
          [[1, 1, 1], [1, 1, 1], [1, 1, 1]] [[0, 0, 0], [0, 0, 0], [0, 0, 0]]
          [[True, True, True], [True, True, True], [True, True, True]] 12 True False True False
          zero_state)
     = Inr ([[1, 1, 1], [1, 0, 1], [1, 1, 1]],
            [[[0, 0, 0], [0, 1, 0], [0, 0, 0]], [[0, 0, 0], [0, 1, 0], [0, 0, 0]]], []) \<and>
   DBSCAN cluster_ext (1 + 1 / 3) 3
       [(0, 0), (0, 0), (0, 0), (0, 0), (1, 1), (0, 0), (0, 0), (0, 0), (0, 0)]
     = [0, 0, 0, 0, - 1, 0, 0, 0, 0] \<and>
   [[1, 1, 1], [1, 0, 1], [1, 1, 1 :: int]] ! 1 ! 1 = - 1 + 1 \<and>
   [[1, 1, 1], [1, 0, 1], [1, 1, 1 :: int]] ! 1 ! 2 = 0 + 1"
proof -
  let ?I = "([(0, 0), (0, 1), (0, 2), (1, 0), (1, 1), (1, 2), (2, 0), (2, 1), (2, 2)] :: (nat \<times> nat) list)"
  note e = cluster_example(1)[where distf = "[[1, 1, 1], [1, 1, 1], [1, 1, 1]]"]
    cluster_example(2,3) cluster_example(4)[where interp = True] cluster_example(5,6,7)
  have cl: "force_cluster 3 12 False" by (simp add: force_cluster_def)
  have px: "(1, 1) \<in> set ?I" by simp
  have d: "distinct ?I" by simp
  from cluster_example_branch[of "[[1, 1, 1], [1, 1, 1], [1, 1, 1]]" "[[0, 0, 0], [0, 0, 0], [0, 0, 0]]" True]
  have res: "fst (skel_branch \<lparr>nclasses = 4, SKLEARN_ENABLED = True\<rparr> cluster_ext 0
          [[1, 1, 1], [1, 1, 1], [1, 1, 1]] [[0, 0, 0], [0, 0, 0], [0, 0, 0]]
          [[True, True, True], [True, True, True], [True, True, True]] 12 True False True False
          zero_state)
     = Inr ([[1, 1, 1], [1, 0, 1], [1, 1, 1]],
            [[[0, 0, 0], [0, 1, 0], [0, 0, 0]], [[0, 0, 0], [0, 1, 0], [0, 0, 0]]], [])"
    by auto
  note t = cluster_noise_background[OF e(1) e(2) e(3) e(4) e(5) cl res px]
  from t d have all: "\<forall>i < length ?I. [[1, 1, 1], [1, 0, 1], [1, 1, 1 :: int]] ! fst (?I ! i) ! snd (?I ! i)
      = [0, 0, 0, 0, - 1, 0, 0, 0, 0] ! i + 1"
    unfolding e(6) by blast
  from all have a: "[[1, 1, 1], [1, 0, 1], [1, 1, 1 :: int]] ! fst (?I ! 4) ! snd (?I ! 4)
      = [0, 0, 0, 0, - 1, 0, 0, 0, 0] ! 4 + 1"
    by (rule allE[where x = 4]) simp
  from all have b: "[[1, 1, 1], [1, 0, 1], [1, 1, 1 :: int]] ! fst (?I ! 5) ! snd (?I ! 5)
      = [0, 0, 0, 0, - 1, 0, 0, 0, 0] ! 5 + 1"
    by (rule allE[where x = 5]) simp
  from a have a': "[[1, 1, 1], [1, 0, 1], [1, 1, 1 :: int]] ! 1 ! 1 = - 1 + 1" by simp
  from b have b': "[[1, 1, 1], [1, 0, 1], [1, 1, 1 :: int]] ! 1 ! 2 = 0 + 1" by simp
  from cl px res e(6) a' b' show ?thesis by blast
qed

end
